theory Spec2Isabelle
  imports Complex_Main
begin

section \<open>Conventions\<close>

text \<open>
  This development embeds the simulation core of the evacuation backend
  (\<^verbatim>\<open>backend/simulation/congestion.py\<close>, \<^verbatim>\<open>agents.py\<close>, \<^verbatim>\<open>hazard.py\<close>,
  \<^verbatim>\<open>routing.py\<close>, \<^verbatim>\<open>model.py\<close>) and the limit handling of \<^verbatim>\<open>backend/app.py\<close>.

  Python \<^verbatim>\<open>float\<close> values that the program computes are idealised as \<^typ>\<open>real\<close>
  (no rounding, no infinities); Python \<^verbatim>\<open>int\<close> values are \<^typ>\<open>int\<close>.  A coordinate is
  the pair \<^verbatim>\<open>(lon, lat)\<close>.  Mutation of \<^verbatim>\<open>self\<close> and of \<^verbatim>\<open>self.model\<close> is explicit
  state passing.

  Numbers that are read from the GeoJSON files are of the type \<open>py_num\<close>: a number, whole or
  not, or NaN, which is what a geopandas row holds in a numeric column for a feature that
  lacks the property.  Whether a row has a column at all (\<^verbatim>\<open>"pop" in row\<close>,
  \<^verbatim>\<open>row.get("capacity", 9999)\<close>) is a property of the file, the same for all its rows.
  The columns \<^verbatim>\<open>pop\<close> and \<^verbatim>\<open>capacity\<close> are taken to be numeric columns; for the arrival
  times of the inundation file, which the source converts itself, the other kinds of
  entries are modelled as well.
\<close>

type_synonym coord = "real \<times> real"

datatype py_num = Num real | NaN

text \<open>Python's \<^verbatim>\<open><\<close> and \<^verbatim>\<open><=\<close> on numbers: every comparison with NaN is false.\<close>

fun num_lt :: "py_num \<Rightarrow> py_num \<Rightarrow> bool" where
  "num_lt (Num a) (Num b) \<longleftrightarrow> a < b"
| "num_lt a b \<longleftrightarrow> False"

fun num_le :: "py_num \<Rightarrow> py_num \<Rightarrow> bool" where
  "num_le (Num a) (Num b) \<longleftrightarrow> a \<le> b"
| "num_le a b \<longleftrightarrow> False"

fun num_sub :: "py_num \<Rightarrow> py_num \<Rightarrow> py_num" where
  "num_sub (Num a) (Num b) = Num (a - b)"
| "num_sub a b = NaN"

datatype py_exception = FileNotFoundError | ValueError


section \<open>CongestionManager (congestion.py)\<close>

record seg_info =
  capacity :: int
  density :: int

record congestion_manager =
  segment_data :: "(coord \<times> coord) \<rightharpoonup> seg_info"
  default_capacity :: int
  congestion_strength :: real

text \<open>\<^verbatim>\<open>CongestionManager.__init__\<close>\<close>

definition CongestionManager_init :: congestion_manager where
  "CongestionManager_init =
     \<lparr>segment_data = Map.empty, default_capacity = 8, congestion_strength = 0.8\<rparr>"

text \<open>Python's \<^verbatim>\<open><\<close> on two-element tuples is the lexicographic order.\<close>

definition tuple_lt :: "coord \<Rightarrow> coord \<Rightarrow> bool" where
  "tuple_lt p q \<longleftrightarrow> fst p < fst q \<or> (fst p = fst q \<and> snd p < snd q)"

text \<open>\<^verbatim>\<open>key = tuple(sorted([a, b]))\<close>: the two elements are swapped exactly when
  \<^verbatim>\<open>b < a\<close>.\<close>

definition seg_key :: "coord \<Rightarrow> coord \<Rightarrow> coord \<times> coord" where
  "seg_key a b = (if tuple_lt b a then (b, a) else (a, b))"

text \<open>\<^verbatim>\<open>register_segment(a, b, capacity=None)\<close>; \<^verbatim>\<open>capacity or self.default_capacity\<close>
  takes the default for \<^verbatim>\<open>None\<close> and for \<^verbatim>\<open>0\<close>.\<close>

definition register_segment ::
  "congestion_manager \<Rightarrow> coord \<Rightarrow> coord \<Rightarrow> int option \<Rightarrow> congestion_manager" where
  "register_segment c a b cap =
     (let key = seg_key a b in
      case segment_data c key of
        Some _ \<Rightarrow> c
      | None \<Rightarrow>
          c\<lparr>segment_data := (segment_data c)(key \<mapsto>
               \<lparr>capacity = (case cap of None \<Rightarrow> default_capacity c
                             | Some n \<Rightarrow> if n = 0 then default_capacity c else n),
                density = 0\<rparr>)\<rparr>)"

definition enter_segment :: "congestion_manager \<Rightarrow> coord \<Rightarrow> coord \<Rightarrow> congestion_manager" where
  "enter_segment c a b =
     (let key = seg_key a b in
      case segment_data c key of
        None \<Rightarrow> c
      | Some s \<Rightarrow> c\<lparr>segment_data := (segment_data c)(key \<mapsto> s\<lparr>density := density s + 1\<rparr>)\<rparr>)"

definition leave_segment :: "congestion_manager \<Rightarrow> coord \<Rightarrow> coord \<Rightarrow> congestion_manager" where
  "leave_segment c a b =
     (let key = seg_key a b in
      case segment_data c key of
        None \<Rightarrow> c
      | Some s \<Rightarrow>
          c\<lparr>segment_data := (segment_data c)(key \<mapsto> s\<lparr>density := max 0 (density s - 1)\<rparr>)\<rparr>)"

definition get_speed_multiplier :: "congestion_manager \<Rightarrow> coord \<Rightarrow> coord \<Rightarrow> real" where
  "get_speed_multiplier c a b =
     (case segment_data c (seg_key a b) of
        None \<Rightarrow> 1
      | Some s \<Rightarrow>
          if density s \<le> capacity s then 1
          else 1 / (1 + congestion_strength c * real_of_int (density s - capacity s)))"

definition get_density :: "congestion_manager \<Rightarrow> coord \<Rightarrow> coord \<Rightarrow> int" where
  "get_density c a b =
     (case segment_data c (seg_key a b) of None \<Rightarrow> 0 | Some s \<Rightarrow> density s)"

text \<open>The calls a client can make on a manager, and a manager's life: constructed by
  \<^verbatim>\<open>__init__\<close>, then any finite sequence of calls.\<close>

datatype cm_call =
  Register coord coord "int option"
| Enter coord coord
| Leave coord coord

fun cm_apply :: "congestion_manager \<Rightarrow> cm_call \<Rightarrow> congestion_manager" where
  "cm_apply c (Register a b cap) = register_segment c a b cap"
| "cm_apply c (Enter a b) = enter_segment c a b"
| "cm_apply c (Leave a b) = leave_segment c a b"

definition cm_run :: "cm_call list \<Rightarrow> congestion_manager" where
  "cm_run calls = foldl cm_apply CongestionManager_init calls"

text \<open>The density invariant of \<^verbatim>\<open>segment_data\<close>.\<close>

definition densities_nonneg :: "congestion_manager \<Rightarrow> bool" where
  "densities_nonneg c \<longleftrightarrow> (\<forall>k s. segment_data c k = Some s \<longrightarrow> 0 \<le> density s)"


text \<open>Two nodes about 100 m apart, as in the two-node scenario of the specification, and
  call sequences on the segment between them.\<close>

definition node_A :: coord where "node_A = (0, 0)"
definition node_B :: coord where "node_B = (0, 9 / 10000)"

definition leave_heavy_calls :: "cm_call list" where
  "leave_heavy_calls =
     [Register node_B node_A (Some 1), Leave node_A node_B, Enter node_A node_B,
      Leave node_B node_A, Leave node_A node_B]"

definition two_on_AB :: "cm_call list" where
  "two_on_AB = [Register node_A node_B (Some 1), Enter node_A node_B, Enter node_B node_A]"

section \<open>EvacCenterAgent (agents.py)\<close>

text \<open>The shelter record; its capacity field is called \<open>ec_capacity\<close> because \<open>capacity\<close>
  is already the field of a congestion entry.  The constructor stores whatever number it
  is given, without any check, so the capacity is a \<open>py_num\<close>.  The display name is not
  modelled.\<close>

record evac_center =
  ec_id :: int
  loc :: coord
  ec_capacity :: py_num
  occupants :: int

text \<open>\<^verbatim>\<open>EvacCenterAgent.__init__(unique_id, model, loc, capacity=99999)\<close>\<close>

definition EvacCenterAgent_init :: "int \<Rightarrow> coord \<Rightarrow> py_num option \<Rightarrow> evac_center" where
  "EvacCenterAgent_init uid l cap =
     \<lparr>ec_id = uid, loc = l,
      ec_capacity = (case cap of None \<Rightarrow> Num 99999 | Some c \<Rightarrow> c), occupants = 0\<rparr>"

text \<open>\<^verbatim>\<open>self.occupants < self.capacity\<close>\<close>

definition can_accept :: "evac_center \<Rightarrow> bool" where
  "can_accept e \<longleftrightarrow> num_lt (Num (real_of_int (occupants e))) (ec_capacity e)"

text \<open>\<^verbatim>\<open>add_occupant\<close> returns the updated shelter and the Python return value.\<close>

definition add_occupant :: "evac_center \<Rightarrow> evac_center \<times> bool" where
  "add_occupant e =
     (if can_accept e then (e\<lparr>occupants := occupants e + 1\<rparr>, True) else (e, False))"

text \<open>\<^verbatim>\<open>model.evac_agents\<close> is a dictionary from id to shelter; insertion order matters
  for the nearest-shelter scans, so it is an association list.\<close>

type_synonym evac_dict = "(int \<times> evac_center) list"

definition get_evac_agent_by_id :: "evac_dict \<Rightarrow> int \<Rightarrow> evac_center option" where
  "get_evac_agent_by_id d i = map_of d i"

definition put_evac_agent :: "evac_dict \<Rightarrow> int \<Rightarrow> evac_center \<Rightarrow> evac_dict" where
  "put_evac_agent d i e = map (\<lambda>(k, v). if k = i then (k, e) else (k, v)) d"

text \<open>The shelter part of \<^verbatim>\<open>PersonAgent._arrive\<close>: look the assigned shelter up and call
  \<^verbatim>\<open>add_occupant\<close> on it when it exists.\<close>

definition notify_evac_center :: "evac_dict \<Rightarrow> int option \<Rightarrow> evac_dict" where
  "notify_evac_center d target =
     (case target of
        None \<Rightarrow> d
      | Some i \<Rightarrow>
          (case get_evac_agent_by_id d i of
             None \<Rightarrow> d
           | Some e \<Rightarrow> put_evac_agent d i (fst (add_occupant e))))"

text \<open>Everything that can touch an occupant counter: a direct \<^verbatim>\<open>add_occupant\<close> on a shelter,
  or the arrival of an agent assigned to some shelter id (or to none).\<close>

datatype shelter_event = AddOccupant int | Arrival "int option"

fun shelter_apply :: "evac_dict \<Rightarrow> shelter_event \<Rightarrow> evac_dict" where
  "shelter_apply d (AddOccupant i) = notify_evac_center d (Some i)"
| "shelter_apply d (Arrival target) = notify_evac_center d target"

text \<open>The shelter file as geopandas reads it: whether it has a \<^verbatim>\<open>capacity\<close> column, and
  its rows.  A row holds the location that the source derives from the geometry (\<open>None\<close>
  when the geometry is missing) and its entry in the \<^verbatim>\<open>capacity\<close> column, which is NaN
  for a feature without the property and is not read when the file has no such column.\<close>

record evac_row =
  er_geometry :: "coord option"
  er_capacity :: py_num

record evac_gdf =
  has_capacity_column :: bool
  evac_rows :: "evac_row list"

text \<open>\<^verbatim>\<open>EvacuationModel._spawn_evac_centers\<close>: one shelter per row that has a geometry, ids
  counted from 1, with the capacity \<^verbatim>\<open>row.get("capacity", 9999)\<close>: the row's entry when the
  column exists (NaN included), 9999 when it does not.\<close>

fun spawn_evac_rows :: "bool \<Rightarrow> evac_row list \<Rightarrow> evac_dict \<Rightarrow> evac_dict" where
  "spawn_evac_rows col [] d = d"
| "spawn_evac_rows col (r # rs) d =
     (case er_geometry r of
        None \<Rightarrow> spawn_evac_rows col rs d
      | Some l \<Rightarrow>
          (let uid = 1 + int (length d) in
           spawn_evac_rows col rs
             (d @ [(uid, EvacCenterAgent_init uid l
                     (Some (if col then er_capacity r else Num 9999)))])))"

definition spawn_evac_centers :: "evac_gdf \<Rightarrow> evac_dict" where
  "spawn_evac_centers gdf = spawn_evac_rows (has_capacity_column gdf) (evac_rows gdf) []"

text \<open>What \<^verbatim>\<open>add_occupant\<close> maintains for a shelter of any capacity: the count is not
  negative, and it is 0 unless the capacity is a number that the count was below when it
  was last increased.\<close>

definition counted_below_capacity :: "evac_center \<Rightarrow> bool" where
  "counted_below_capacity e \<longleftrightarrow>
     (case ec_capacity e of
        NaN \<Rightarrow> occupants e = 0
      | Num c \<Rightarrow> occupants e = 0 \<or> (0 < occupants e \<and> real_of_int (occupants e) < c + 1))"

definition shelters_counted :: "evac_dict \<Rightarrow> bool" where
  "shelters_counted d \<longleftrightarrow> list_all (\<lambda>(i, e). counted_below_capacity e) d"

text \<open>Shelter files with a single shelter: of capacity 1, of capacity one half, of capacity
  \<open>-1\<close>, and without the property in a file that has the column.\<close>

definition one_place_file :: evac_gdf where
  "one_place_file =
     \<lparr>has_capacity_column = True,
      evac_rows = [\<lparr>er_geometry = Some (0, 0), er_capacity = Num 1\<rparr>]\<rparr>"

definition half_place_file :: evac_gdf where
  "half_place_file =
     \<lparr>has_capacity_column = True,
      evac_rows = [\<lparr>er_geometry = Some (0, 0), er_capacity = Num (1 / 2)\<rparr>]\<rparr>"

definition negative_place_file :: evac_gdf where
  "negative_place_file =
     \<lparr>has_capacity_column = True,
      evac_rows = [\<lparr>er_geometry = Some (0, 0), er_capacity = Num (- 1)\<rparr>]\<rparr>"

definition unknown_place_file :: evac_gdf where
  "unknown_place_file =
     \<lparr>has_capacity_column = True,
      evac_rows = [\<lparr>er_geometry = Some (0, 0), er_capacity = NaN\<rparr>]\<rparr>"

section \<open>PersonAgent: data (agents.py)\<close>

datatype pstate = Idle | Evacuating | Safe | Stuck | Overtaken

text \<open>The attributes of \<^verbatim>\<open>PersonAgent\<close>; \<^verbatim>\<open>_route_idx\<close> and \<^verbatim>\<open>_segment_progress\<close> lose their
  leading underscore.  The route index starts at 0 and is only ever incremented, so it is a
  natural number; the comparisons of the source are written on integers.\<close>

record person =
  unique_id :: int
  home :: coord
  pos :: coord
  speed :: real
  state :: pstate
  evac_center_id :: "int option"
  route :: "coord list"
  route_idx :: nat
  segment_progress :: real
  reached :: bool

text \<open>\<^verbatim>\<open>PersonAgent.__init__(unique_id, model, home_loc, speed=1.4)\<close>\<close>

definition PersonAgent_init :: "int \<Rightarrow> coord \<Rightarrow> real \<Rightarrow> person" where
  "PersonAgent_init uid home_loc spd =
     \<lparr>unique_id = uid, home = home_loc, pos = home_loc, speed = spd, state = Idle,
      evac_center_id = None, route = [], route_idx = 0, segment_progress = 0,
      reached = False\<rparr>"

section \<open>Population spawn (model.py, app.py)\<close>

















section \<open>TsunamiHazard (hazard.py)\<close>

text \<open>A prepared polygon is used only through the test
  \<^verbatim>\<open>prep_geom.contains(pt) or prep_geom.intersects(pt)\<close>, which the source guards with
  \<^verbatim>\<open>try\<close>; a region is that test, with \<open>None\<close> when it raises.\<close>

type_synonym region = "coord \<Rightarrow> bool option"

record tsunami_hazard =
  current_time :: real
  has_precomputed :: bool
  has_dynamic :: bool
  polygons :: "(region \<times> py_num) list"
  source_points_m :: "(real \<times> real) list"
  prop_speed :: "real option"

text \<open>What a row of the inundation file holds under one of the four accepted attribute
  names: the file has no such column (\<^verbatim>\<open>key in row\<close> fails), the entry is \<^verbatim>\<open>None\<close>, the
  entry is one that \<^verbatim>\<open>float\<close> converts (to a number or to NaN, which is what a numeric
  column holds for a feature without the property), or \<^verbatim>\<open>float\<close> raises on it.\<close>

datatype cell = No_column | Py_None | Converts py_num | Float_raises

text \<open>A row of the inundation file: its geometry (\<open>None\<close> when missing or empty) and its
  entries under the four attribute names.\<close>

record feature =
  f_geometry :: "region option"
  f_arrival_time :: cell
  f_time_to_inundation :: cell
  f_t_arrival :: cell
  f_t0 :: cell

datatype geo_file = Missing_file | No_geometry_column | Feature_rows "feature list"

text \<open>\<^verbatim>\<open>lonlat_to_meters\<close> applies the pyproj transformer from EPSG:4326 to EPSG:3857, the
  spherical Mercator projection on the radius 6378137 m.\<close>

definition lonlat_to_meters :: "coord \<Rightarrow> real \<times> real" where
  "lonlat_to_meters c =
     (6378137 * (fst c * pi / 180),
      6378137 * ln (tan (pi / 4 + (snd c * pi / 180) / 2)))"

text \<open>\<^verbatim>\<open>math.hypot(dx, dy)\<close>\<close>

definition meters_distance :: "real \<times> real \<Rightarrow> real \<times> real \<Rightarrow> real" where
  "meters_distance a_m b_m = sqrt ((fst a_m - fst b_m)\<^sup>2 + (snd a_m - snd b_m)\<^sup>2)"

text \<open>The loop over the four keys: the first entry that is there, is not \<^verbatim>\<open>None\<close> and
  converts is taken, NaN included; \<open>None\<close> when no key gives one.\<close>

fun first_float :: "cell list \<Rightarrow> py_num option" where
  "first_float [] = None"
| "first_float (Converts v # cs) = Some v"
| "first_float (c # cs) = first_float cs"

definition feature_arrival_time :: "feature \<Rightarrow> py_num" where
  "feature_arrival_time f =
     (case first_float [f_arrival_time f, f_time_to_inundation f, f_t_arrival f, f_t0 f] of
        None \<Rightarrow> Num 0
      | Some v \<Rightarrow> v)"

text \<open>The loop of \<^verbatim>\<open>_load_inundation_polygons\<close>: rows without geometry are skipped.\<close>

fun load_inundation_polygons :: "feature list \<Rightarrow> (region \<times> py_num) list" where
  "load_inundation_polygons [] = []"
| "load_inundation_polygons (f # fs) =
     (case f_geometry f of
        None \<Rightarrow> load_inundation_polygons fs
      | Some g \<Rightarrow> (g, feature_arrival_time f) # load_inundation_polygons fs)"

definition hazard_blank :: tsunami_hazard where
  "hazard_blank =
     \<lparr>current_time = 0, has_precomputed = False, has_dynamic = False, polygons = [],
      source_points_m = [], prop_speed = None\<rparr>"

text \<open>\<^verbatim>\<open>TsunamiHazard.__init__(inundation_geojson=None, source_points=None,
  propagation_speed=None)\<close>.  The file argument is \<open>None\<close> for a falsy path, otherwise what
  reading the file gives.  The tests \<^verbatim>\<open>source_points and propagation_speed\<close> are truth
  values: a non-empty list and a non-zero number.\<close>

definition TsunamiHazard_init ::
  "geo_file option \<Rightarrow> coord list option \<Rightarrow> real option \<Rightarrow> py_exception + tsunami_hazard" where
  "TsunamiHazard_init inundation_geojson source_points propagation_speed =
     (case inundation_geojson of
        Some Missing_file \<Rightarrow> Inl FileNotFoundError
      | Some No_geometry_column \<Rightarrow> Inl ValueError
      | Some (Feature_rows rows) \<Rightarrow>
          (let ps = load_inundation_polygons rows
           in Inr (hazard_blank\<lparr>polygons := ps, has_precomputed := (ps \<noteq> [])\<rparr>))
      | None \<Rightarrow>
          (case (source_points, propagation_speed) of
             (Some pts, Some v) \<Rightarrow>
               if pts \<noteq> [] \<and> v \<noteq> 0
               then Inr (hazard_blank\<lparr>prop_speed := Some v,
                                       source_points_m := map lonlat_to_meters pts,
                                       has_dynamic := (pts \<noteq> [] \<and> 0 < v)\<rparr>)
               else Inr hazard_blank
           | _ \<Rightarrow> Inr hazard_blank))"

definition update :: "tsunami_hazard \<Rightarrow> real \<Rightarrow> tsunami_hazard" where
  "update h current_time_seconds = h\<lparr>current_time := current_time_seconds\<rparr>"

text \<open>The scan of the polygons: the first region whose test says yes; a test that raises
  is skipped.\<close>

fun first_polygon :: "(region \<times> py_num) list \<Rightarrow> coord \<Rightarrow> py_num option" where
  "first_polygon [] pt = None"
| "first_polygon ((g, arrival_time) # ps) pt =
     (case g pt of
        Some True \<Rightarrow> Some arrival_time
      | _ \<Rightarrow> first_polygon ps pt)"

text \<open>The scan of the sources; \<open>None\<close> is the initial \<^verbatim>\<open>float("inf")\<close>.\<close>

fun min_source_dist :: "real \<times> real \<Rightarrow> (real \<times> real) list \<Rightarrow> real option \<Rightarrow> real option" where
  "min_source_dist coord_m [] min_dist = min_dist"
| "min_source_dist coord_m (s # ss) min_dist =
     (let d = meters_distance coord_m s
      in min_source_dist coord_m ss
           (case min_dist of
              None \<Rightarrow> Some d
            | Some m \<Rightarrow> if d < m then Some d else Some m))"

definition get_time_to_inundation :: "tsunami_hazard \<Rightarrow> coord \<Rightarrow> py_num option" where
  "get_time_to_inundation h c =
     (if has_precomputed h then first_polygon (polygons h) c
      else if has_dynamic h then
        (case (prop_speed h, min_source_dist (lonlat_to_meters c) (source_points_m h) None) of
           (Some v, Some min_dist) \<Rightarrow> if v \<noteq> 0 then Some (Num (min_dist / v)) else None
         | _ \<Rightarrow> None)
      else None)"

definition is_inundated :: "tsunami_hazard \<Rightarrow> coord \<Rightarrow> real option \<Rightarrow> bool" where
  "is_inundated h c time =
     (let t = (case time of None \<Rightarrow> current_time h | Some x \<Rightarrow> x)
      in case get_time_to_inundation h c of
           None \<Rightarrow> False
         | Some arrival \<Rightarrow> num_le arrival (Num t))"

text \<open>A file with one usable polygon, the half plane of longitudes up to 1, reached at
  5 s, and the same polygon in a file where another feature has an arrival time and this
  one has none.\<close>

definition west_half :: region where
  "west_half c = Some (fst c \<le> 1)"

definition west_file :: geo_file where
  "west_file =
     Feature_rows
       [\<lparr>f_geometry = None, f_arrival_time = Converts (Num 2), f_time_to_inundation = No_column,
         f_t_arrival = No_column, f_t0 = No_column\<rparr>,
        \<lparr>f_geometry = Some west_half, f_arrival_time = Converts (Num 5),
         f_time_to_inundation = No_column, f_t_arrival = No_column, f_t0 = No_column\<rparr>]"

definition west_gap_file :: geo_file where
  "west_gap_file =
     Feature_rows
       [\<lparr>f_geometry = Some west_half, f_arrival_time = Converts NaN,
         f_time_to_inundation = No_column, f_t_arrival = No_column, f_t0 = No_column\<rparr>]"

section \<open>Road graph and routing (graph_builder.py, routing.py)\<close>

text \<open>The networkx graph: its nodes in insertion order and its undirected weighted edges.\<close>

record road_graph =
  g_nodes :: "coord list"
  g_edges :: "(coord \<times> coord \<times> real) list"

definition empty_graph :: road_graph where
  "empty_graph = \<lparr>g_nodes = [], g_edges = []\<rparr>"

text \<open>\<^verbatim>\<open>distance(p1, p2)\<close> of graph_builder.py, in degrees.\<close>

definition distance :: "coord \<Rightarrow> coord \<Rightarrow> real" where
  "distance p1 p2 = sqrt ((fst p1 - fst p2)\<^sup>2 + (snd p1 - snd p2)\<^sup>2)"

definition add_node :: "road_graph \<Rightarrow> coord \<Rightarrow> road_graph" where
  "add_node g p = (if p \<in> set (g_nodes g) then g else g\<lparr>g_nodes := g_nodes g @ [p]\<rparr>)"

definition same_edge :: "coord \<Rightarrow> coord \<Rightarrow> coord \<times> coord \<times> real \<Rightarrow> bool" where
  "same_edge u v e \<longleftrightarrow> (fst e = u \<and> fst (snd e) = v) \<or> (fst e = v \<and> fst (snd e) = u)"

text \<open>\<^verbatim>\<open>G.add_edge(p1, p2, weight=dist)\<close>: both ends become nodes; an edge that is already
  there gets the new weight.\<close>

definition add_edge :: "road_graph \<Rightarrow> coord \<Rightarrow> coord \<Rightarrow> real \<Rightarrow> road_graph" where
  "add_edge g u v w =
     (let g' = add_node (add_node g u) v
      in if list_ex (same_edge u v) (g_edges g')
         then g'\<lparr>g_edges := map (\<lambda>e. if same_edge u v e then (fst e, fst (snd e), w) else e)
                                (g_edges g')\<rparr>
         else g'\<lparr>g_edges := g_edges g' @ [(u, v, w)]\<rparr>)"

text \<open>The loop over the consecutive coordinate pairs of one line.\<close>

fun add_line :: "road_graph \<Rightarrow> coord list \<Rightarrow> road_graph" where
  "add_line g (p1 # p2 # ps) =
     add_line (add_edge (add_node (add_node g p1) p2) p1 p2 (distance p1 p2)) (p2 # ps)"
| "add_line g ps = g"

text \<open>\<^verbatim>\<open>build_road_graph\<close>, from the coordinate lists of the line strings of the road file.\<close>

definition build_road_graph :: "coord list list \<Rightarrow> road_graph" where
  "build_road_graph lines = foldl add_line empty_graph lines"

text \<open>\<^verbatim>\<open>nearest_node(graph, point)\<close>: the scan keeps the first node of least squared
  distance; the accumulator is \<^verbatim>\<open>(min_dist, nearest)\<close>, \<open>None\<close> before the first node.\<close>

fun nearest_scan :: "coord \<Rightarrow> coord list \<Rightarrow> (real \<times> coord) option \<Rightarrow> (real \<times> coord) option" where
  "nearest_scan pt [] best = best"
| "nearest_scan pt (n # ns) best =
     (let dist = (fst n - fst pt)\<^sup>2 + (snd n - snd pt)\<^sup>2
      in nearest_scan pt ns
           (case best of
              None \<Rightarrow> Some (dist, n)
            | Some (min_dist, nearest) \<Rightarrow>
                if dist < min_dist then Some (dist, n) else Some (min_dist, nearest)))"

definition nearest_node :: "road_graph \<Rightarrow> coord \<Rightarrow> coord option" where
  "nearest_node g pt = map_option snd (nearest_scan pt (g_nodes g) None)"

text \<open>
  \<^verbatim>\<open>nx.shortest_path(G, source, target, weight="weight")\<close> is a library function.  Its
  contract: it raises \<^verbatim>\<open>NodeNotFound\<close> when an end is not a node, raises
  \<^verbatim>\<open>NetworkXNoPath\<close> when the target cannot be reached, and otherwise returns a path of
  least total weight.  The model enumerates the simple paths (the weights are distances,
  so a simple path attains the least weight) and returns the first one of least weight;
  which of several paths of equal weight the library returns is not relied upon.
\<close>

datatype nx_error = NetworkXNoPath | NodeNotFound

definition adjacent :: "road_graph \<Rightarrow> coord \<Rightarrow> coord \<Rightarrow> bool" where
  "adjacent g u v \<longleftrightarrow> list_ex (same_edge u v) (g_edges g)"

function simple_paths :: "road_graph \<Rightarrow> coord list \<Rightarrow> coord \<Rightarrow> coord \<Rightarrow> coord list list" where
  "simple_paths g avail u t =
     (if u = t then [[t]]
      else concat (map (\<lambda>v. map ((#) u) (simple_paths g (removeAll v avail) v t))
                       (filter (adjacent g u) avail)))"
  by pat_completeness auto
termination
proof (relation "measure (\<lambda>(g, avail, u, t). length avail)")
  show "wf (measure (\<lambda>(g, avail, u, t). length avail))" by simp
next
  fix g :: road_graph and avail :: "coord list" and u t v :: coord
  assume "v \<in> set (filter (adjacent g u) avail)"
  then have "v \<in> set avail" by simp
  then have "length (removeAll v avail) < length avail" by (rule length_removeAll_less)
  then show "((g, removeAll v avail, v, t), (g, avail, u, t))
      \<in> measure (\<lambda>(g, avail, u, t). length avail)" by simp
qed

declare simple_paths.simps [simp del]

definition edge_weight :: "road_graph \<Rightarrow> coord \<Rightarrow> coord \<Rightarrow> real" where
  "edge_weight g u v =
     (case find (same_edge u v) (g_edges g) of None \<Rightarrow> 0 | Some e \<Rightarrow> snd (snd e))"

fun path_weight :: "road_graph \<Rightarrow> coord list \<Rightarrow> real" where
  "path_weight g (u # v # ps) = edge_weight g u v + path_weight g (v # ps)"
| "path_weight g ps = 0"

fun lightest :: "road_graph \<Rightarrow> coord list list \<Rightarrow> coord list \<Rightarrow> coord list" where
  "lightest g [] best = best"
| "lightest g (p # ps) best =
     lightest g ps (if path_weight g p < path_weight g best then p else best)"

definition shortest_path :: "road_graph \<Rightarrow> coord \<Rightarrow> coord \<Rightarrow> nx_error + coord list" where
  "shortest_path g source target =
     (if source \<notin> set (g_nodes g) \<or> target \<notin> set (g_nodes g) then Inl NodeNotFound
      else case simple_paths g (removeAll source (g_nodes g)) source target of
             [] \<Rightarrow> Inl NetworkXNoPath
           | p # ps \<Rightarrow> Inr (lightest g ps p))"

text \<open>\<^verbatim>\<open>compute_shortest_route(start, end)\<close>; the global \<^verbatim>\<open>ROAD_GRAPH\<close> is the first
  argument.  An exception of the library call is not caught here.\<close>

definition compute_shortest_route :: "road_graph \<Rightarrow> coord \<Rightarrow> coord \<Rightarrow> nx_error + coord list" where
  "compute_shortest_route g start endp =
     (case (nearest_node g start, nearest_node g endp) of
        (Some start_node, Some end_node) \<Rightarrow> shortest_path g start_node end_node
      | _ \<Rightarrow> Inr [])"

text \<open>The callers in model.py wrap the call:
  \<^verbatim>\<open>try: path = compute_shortest_route(start, end)\<close> / \<^verbatim>\<open>except Exception: path = []\<close>.\<close>

definition route_or_empty :: "road_graph \<Rightarrow> coord \<Rightarrow> coord \<Rightarrow> coord list" where
  "route_or_empty g start endp =
     (case compute_shortest_route g start endp of Inl _ \<Rightarrow> [] | Inr path \<Rightarrow> path)"

text \<open>Reachability in the graph, and a road file with two separate streets.\<close>

definition road_connected :: "road_graph \<Rightarrow> coord \<Rightarrow> coord \<Rightarrow> bool" where
  "road_connected g u v \<longleftrightarrow> (u, v) \<in> {(a, b). adjacent g a b}\<^sup>*"

definition two_streets :: road_graph where
  "two_streets = build_road_graph [[(0, 0), (1, 0)], [(5, 5), (6, 5)]]"

section \<open>PersonAgent: movement (agents.py)\<close>

text \<open>\<^verbatim>\<open>interpolate(a, b, t)\<close>\<close>

definition interpolate :: "coord \<Rightarrow> coord \<Rightarrow> real \<Rightarrow> coord" where
  "interpolate a b t = (fst a + (fst b - fst a) * t, snd a + (snd b - snd a) * t)"

text \<open>\<^verbatim>\<open>math.radians\<close> and \<^verbatim>\<open>math.atan2\<close>\<close>

definition radians :: "real \<Rightarrow> real" where
  "radians x = x * pi / 180"

definition atan2 :: "real \<Rightarrow> real \<Rightarrow> real" where
  "atan2 y x =
     (if 0 < x then arctan (y / x)
      else if x < 0 then (if 0 \<le> y then arctan (y / x) + pi else arctan (y / x) - pi)
      else if 0 < y then pi / 2
      else if y < 0 then - (pi / 2)
      else 0)"

text \<open>\<^verbatim>\<open>_segment_length_m(a, b)\<close>: the haversine distance in metres.\<close>

definition segment_length_m :: "coord \<Rightarrow> coord \<Rightarrow> real" where
  "segment_length_m a b =
     (let lon1 = fst a; lat1 = snd a; lon2 = fst b; lat2 = snd b;
          phi1 = radians lat1; phi2 = radians lat2;
          dphi = radians (lat2 - lat1); dlambda = radians (lon2 - lon1);
          hav = (sin (dphi / 2))\<^sup>2 + cos phi1 * cos phi2 * (sin (dlambda / 2))\<^sup>2;
          c = 2 * atan2 (sqrt hav) (sqrt (1 - hav))
      in 6371000 * c)"

text \<open>What an agent reaches through \<^verbatim>\<open>self.model\<close>, and the agents themselves.  The
  dictionaries are association lists in insertion order; \<^verbatim>\<open>ROAD_GRAPH\<close> is the module
  global of routing.py.\<close>

record sim_model =
  congestion :: congestion_manager
  evac_agents :: evac_dict
  hazard :: "tsunami_hazard option"
  sim_time :: real
  step_time_seconds :: real
  reroute_threshold_s :: real
  ROAD_GRAPH :: road_graph
  person_agents :: "(int \<times> person) list"

text \<open>\<^verbatim>\<open>_current_segment\<close>; \<open>None\<close> stands for the pair \<^verbatim>\<open>(None, None)\<close>.\<close>

definition current_segment :: "person \<Rightarrow> (coord \<times> coord) option" where
  "current_segment p =
     (if route p = [] \<or> int (length (route p)) - 1 \<le> int (route_idx p) then None
      else Some (route p ! route_idx p, route p ! (route_idx p + 1)))"

text \<open>The recurring blocks \<^verbatim>\<open>s, e = self._current_segment()\<close>,
  \<^verbatim>\<open>if s and e: congestion.leave_segment(s, e)\<close> and the same with
  \<^verbatim>\<open>enter_segment\<close>; a coordinate tuple is truthy, \<^verbatim>\<open>None\<close> is not.\<close>

definition leave_current :: "congestion_manager \<Rightarrow> person \<Rightarrow> congestion_manager" where
  "leave_current c p =
     (case current_segment p of None \<Rightarrow> c | Some (a, b) \<Rightarrow> leave_segment c a b)"

definition enter_current :: "congestion_manager \<Rightarrow> person \<Rightarrow> congestion_manager" where
  "enter_current c p =
     (case current_segment p of None \<Rightarrow> c | Some (a, b) \<Rightarrow> enter_segment c a b)"

text \<open>\<^verbatim>\<open>assign_route(route_nodes, evac_center_id)\<close>\<close>

definition assign_route ::
  "sim_model \<Rightarrow> person \<Rightarrow> coord list \<Rightarrow> int \<Rightarrow> sim_model \<times> person" where
  "assign_route m p route_nodes target =
     (let c1 = leave_current (congestion m) p in
      if length route_nodes < 2
      then (m\<lparr>congestion := c1\<rparr>, p\<lparr>route := [], evac_center_id := None, state := Stuck\<rparr>)
      else (m\<lparr>congestion := enter_segment c1 (route_nodes ! 0) (route_nodes ! 1)\<rparr>,
            p\<lparr>route := route_nodes, route_idx := 0, segment_progress := 0,
              evac_center_id := Some target, state := Evacuating\<rparr>))"

text \<open>\<^verbatim>\<open>_become_overtaken\<close>\<close>

definition become_overtaken :: "sim_model \<Rightarrow> person \<Rightarrow> sim_model \<times> person" where
  "become_overtaken m p =
     (m\<lparr>congestion := leave_current (congestion m) p\<rparr>,
      p\<lparr>state := Overtaken, reached := False\<rparr>)"

text \<open>\<^verbatim>\<open>_arrive\<close>.  The previous segment is released when the index is positive; reading
  \<^verbatim>\<open>self.route[self._route_idx]\<close> beyond the route raises inside the \<^verbatim>\<open>try\<close> and releases
  nothing.\<close>

definition arrive :: "sim_model \<Rightarrow> person \<Rightarrow> sim_model \<times> person" where
  "arrive m p =
     (let c1 = (if 0 < route_idx p \<and> route_idx p < length (route p)
                then leave_segment (congestion m) (route p ! (route_idx p - 1))
                       (route p ! route_idx p)
                else congestion m)
      in (m\<lparr>congestion := c1,
            evac_agents := notify_evac_center (evac_agents m) (evac_center_id p)\<rparr>,
          p\<lparr>state := Safe, reached := True\<rparr>))"

text \<open>The loop \<^verbatim>\<open>while self._segment_progress >= 1.0 and self._route_idx < len(self.route) - 1\<close>.\<close>

function rollover :: "congestion_manager \<Rightarrow> person \<Rightarrow> congestion_manager \<times> person" where
  "rollover c p =
     (if 1 \<le> segment_progress p \<and> int (route_idx p) < int (length (route p)) - 1
      then (let c1 = leave_current c p;
                p1 = p\<lparr>route_idx := route_idx p + 1,
                       segment_progress := segment_progress p - 1\<rparr>
            in rollover (enter_current c1 p1) p1)
      else (c, p))"
  by pat_completeness auto
termination
  by (relation "measure (\<lambda>(c, p). length (route p) - route_idx p)") auto

declare rollover.simps [simp del]

text \<open>The branch \<^verbatim>\<open>if seg_len == 0\<close> of \<^verbatim>\<open>step\<close>, which ends the step.\<close>

definition zero_length_hop :: "sim_model \<Rightarrow> person \<Rightarrow> coord \<Rightarrow> coord \<Rightarrow> sim_model \<times> person" where
  "zero_length_hop m p start_node end_node =
     (let c1 = leave_segment (congestion m) start_node end_node;
          p1 = p\<lparr>route_idx := route_idx p + 1, segment_progress := 0\<rparr>
      in (m\<lparr>congestion := enter_current c1 p1\<rparr>, p1))"

text \<open>The movement of \<^verbatim>\<open>step\<close> on a segment of positive length, up to and including the
  arrival check.  \<open>start_node\<close> and \<open>end_node\<close> are the local variables read before the
  loop.\<close>

definition advance_along ::
  "sim_model \<Rightarrow> person \<Rightarrow> coord \<Rightarrow> coord \<Rightarrow> real \<Rightarrow> sim_model \<times> person" where
  "advance_along m p start_node end_node seg_len =
     (let speed_factor = get_speed_multiplier (congestion m) start_node end_node;
          effective_speed = speed p * speed_factor;
          dist_this_step = effective_speed * step_time_seconds m;
          delta = dist_this_step / seg_len;
          (c2, p2) = rollover (congestion m) (p\<lparr>segment_progress := segment_progress p + delta\<rparr>);
          s = max 0 (min 1 (segment_progress p2));
          p3 = p2\<lparr>pos := interpolate start_node end_node s\<rparr>;
          m3 = m\<lparr>congestion := c2\<rparr>
      in if int (length (route p3)) - 1 \<le> int (route_idx p3)
            \<and> segment_length_m (pos p3) (last (route p3)) < 1
         then arrive m3 p3
         else (m3, p3))"

text \<open>The agent-level hazard check that closes \<^verbatim>\<open>step\<close>.\<close>

definition hazard_check :: "sim_model \<Rightarrow> person \<Rightarrow> sim_model \<times> person" where
  "hazard_check m p =
     (case hazard m of
        None \<Rightarrow> (m, p)
      | Some h \<Rightarrow>
          (case get_time_to_inundation h (pos p) of
             None \<Rightarrow> (m, p)
           | Some arrival \<Rightarrow>
               if num_le arrival (Num (sim_time m)) then become_overtaken m p else (m, p)))"

text \<open>\<^verbatim>\<open>PersonAgent.step\<close>\<close>

definition PersonAgent_step :: "sim_model \<Rightarrow> person \<Rightarrow> sim_model \<times> person" where
  "PersonAgent_step m p =
     (if state p \<noteq> Evacuating then (m, p)
      else if int (length (route p)) - 1 \<le> int (route_idx p) then arrive m p
      else case current_segment p of
             None \<Rightarrow> (m, p\<lparr>state := Stuck\<rparr>)
           | Some (start_node, end_node) \<Rightarrow>
               (let seg_len = segment_length_m start_node end_node
                in if seg_len = 0 then zero_length_hop m p start_node end_node
                   else (let (m1, p1) = advance_along m p start_node end_node seg_len
                         in hazard_check m1 p1)))"

text \<open>\<open>n\<close> successive calls of \<^verbatim>\<open>step\<close> on one agent.\<close>

fun ticks :: "nat \<Rightarrow> sim_model \<Rightarrow> person \<Rightarrow> sim_model \<times> person" where
  "ticks 0 m p = (m, p)"
| "ticks (Suc n) m p = (let (m1, p1) = PersonAgent_step m p in ticks n m1 p1)"

section \<open>Scenario data\<close>

text \<open>Nodes on the equator: \<open>eq_B\<close> is 0.000008 degrees (about 0.9 m) east of \<open>eq_A\<close>, \<open>eq_C\<close>
  as far again; \<open>eq_S\<close> is 0.000003 degrees (about 0.33 m) and \<open>eq_far\<close> 0.001 degrees
  (about 111 m) east of \<open>eq_A\<close>.\<close>

definition eq_A :: coord where "eq_A = (0, 0)"
definition eq_B :: coord where "eq_B = (8 / 1000000, 0)"
definition eq_C :: coord where "eq_C = (16 / 1000000, 0)"
definition eq_S :: coord where "eq_S = (3 / 1000000, 0)"
definition eq_far :: coord where "eq_far = (1 / 1000, 0)"

text \<open>A model with one shelter at \<open>eq_B\<close>, the segments between \<open>eq_A\<close>, \<open>eq_B\<close> and
  \<open>eq_C\<close> registered with the default capacity (no other segment is registered), a
  one-second tick and a hazard object without data.\<close>

definition demo_congestion :: congestion_manager where
  "demo_congestion =
     cm_run [Register eq_A eq_A None, Register eq_A eq_B None, Register eq_B eq_C None]"

definition demo_model :: sim_model where
  "demo_model =
     \<lparr>congestion = demo_congestion,
      evac_agents = [(1, EvacCenterAgent_init 1 eq_B (Some (Num 5)))],
      hazard = Some hazard_blank,
      sim_time = 1, step_time_seconds = 1, reroute_threshold_s = 30,
      ROAD_GRAPH = build_road_graph [[eq_A, eq_B, eq_C]],
      person_agents = []\<rparr>"

text \<open>An evacuating agent at the start of a route, walking at the default 1.4 m/s.\<close>

definition walker :: "coord list \<Rightarrow> person" where
  "walker r = (PersonAgent_init 1000 (hd r) 1.4)
                \<lparr>route := r, state := Evacuating, evac_center_id := Some 1\<rparr>"


text \<open>The length of the segment from \<open>eq_A\<close> to \<open>eq_B\<close>, between 0.849 m and 1.133 m.\<close>

definition len_AB :: real where "len_AB = segment_length_m eq_A eq_B"

section \<open>EvacuationModel: rerouting and the tick (model.py)\<close>

text \<open>The candidate search of \<^verbatim>\<open>recompute_route_for_person\<close>: the shelters sorted (stably)
  by squared distance from the agent's position, and the first that can accept.\<close>

definition nearest_accepting :: "evac_dict \<Rightarrow> coord \<Rightarrow> evac_center option" where
  "nearest_accepting d here =
     find can_accept
       (sort_key (\<lambda>e. (fst (loc e) - fst here)\<^sup>2 + (snd (loc e) - snd here)\<^sup>2)
          (map snd d))"

text \<open>\<^verbatim>\<open>recompute_route_for_person(person)\<close>, with its return value.  The test
  \<^verbatim>\<open>if current_target\<close> is a truth value: an id that is \<^verbatim>\<open>None\<close> or 0 counts as absent.\<close>

definition recompute_route_for_person ::
  "sim_model \<Rightarrow> person \<Rightarrow> sim_model \<times> person \<times> bool" where
  "recompute_route_for_person m p =
     (if route p = [] then (m, p, False)
      else
        (let target_agent =
               (case evac_center_id p of
                  None \<Rightarrow> None
                | Some i \<Rightarrow> if i = 0 then None else get_evac_agent_by_id (evac_agents m) i);
             chosen =
               (case target_agent of
                  None \<Rightarrow> nearest_accepting (evac_agents m) (pos p)
                | Some e \<Rightarrow>
                    if can_accept e then Some e
                    else nearest_accepting (evac_agents m) (pos p))
         in case chosen of
              None \<Rightarrow> (m, p, False)
            | Some tgt \<Rightarrow>
                (let new_path = route_or_empty (ROAD_GRAPH m) (pos p) (loc tgt)
                 in if 2 \<le> length new_path
                    then (let (m1, p1) = assign_route m p new_path (ec_id tgt)
                          in (m1, p1, True))
                    else (m, p, False))))"

text \<open>The last block of the post-step loop: an agent that is safe, overtaken or stuck
  releases whatever \<^verbatim>\<open>_current_segment\<close> returns for it.\<close>

definition terminal_cleanup :: "sim_model \<Rightarrow> person \<Rightarrow> sim_model \<times> person" where
  "terminal_cleanup m p =
     (if state p = Safe \<or> state p = Overtaken \<or> state p = Stuck
      then (m\<lparr>congestion := leave_current (congestion m) p\<rparr>, p)
      else (m, p))"

text \<open>The body of the post-step loop of \<^verbatim>\<open>EvacuationModel.step\<close> for one agent.  A model
  without hazard object would raise inside the \<^verbatim>\<open>try\<close> and leave the agent as it is.\<close>

definition post_step_person :: "sim_model \<Rightarrow> person \<Rightarrow> sim_model \<times> person" where
  "post_step_person m p =
     (if state p = Evacuating then
        (case hazard m of
           None \<Rightarrow> (m, p)
         | Some h \<Rightarrow>
             (let arrival = get_time_to_inundation h (pos p) in
              if (case arrival of None \<Rightarrow> False | Some a \<Rightarrow> num_le a (Num (sim_time m)))
              then become_overtaken m p
              else
                (let (m1, p1) =
                       (case arrival of
                          None \<Rightarrow> (m, p)
                        | Some a \<Rightarrow>
                            if num_le (num_sub a (Num (sim_time m))) (Num (reroute_threshold_s m))
                            then (let (m', p', ok) = recompute_route_for_person m p
                                  in (m', p'))
                            else (m, p));
                     (m2, p2) =
                       (case evac_center_id p1 of
                          None \<Rightarrow> (m1, p1)
                        | Some i \<Rightarrow>
                            (case get_evac_agent_by_id (evac_agents m1) i of
                               None \<Rightarrow> (m1, p1)
                             | Some e \<Rightarrow>
                                 if \<not> can_accept e
                                 then (let (m', p', ok) = recompute_route_for_person m1 p1
                                       in (m', p'))
                                 else (m1, p1)))
                 in terminal_cleanup m2 p2)))
      else terminal_cleanup m p)"

text \<open>Writing an agent back into \<^verbatim>\<open>person_agents\<close>.\<close>

definition set_person :: "sim_model \<Rightarrow> int \<Rightarrow> person \<Rightarrow> sim_model" where
  "set_person m uid p =
     m\<lparr>person_agents := map (\<lambda>(k, v). if k = uid then (k, p) else (k, v)) (person_agents m)\<rparr>"

text \<open>\<^verbatim>\<open>schedule.step()\<close>: the random activation calls \<^verbatim>\<open>step\<close> on every agent once, in
  an order it shuffles; the order of the person ids is a parameter.  The step of a shelter
  does nothing.\<close>

fun activate :: "sim_model \<Rightarrow> int list \<Rightarrow> sim_model" where
  "activate m [] = m"
| "activate m (uid # uids) =
     (case map_of (person_agents m) uid of
        None \<Rightarrow> activate m uids
      | Some p \<Rightarrow>
          (let (m1, p1) = PersonAgent_step m p in activate (set_person m1 uid p1) uids))"

fun post_pass :: "sim_model \<Rightarrow> int list \<Rightarrow> sim_model" where
  "post_pass m [] = m"
| "post_pass m (uid # uids) =
     (case map_of (person_agents m) uid of
        None \<Rightarrow> post_pass m uids
      | Some p \<Rightarrow>
          (let (m1, p1) = post_step_person m p in post_pass (set_person m1 uid p1) uids))"

text \<open>\<^verbatim>\<open>EvacuationModel.step\<close>; the data collector only reads.\<close>

definition EvacuationModel_step :: "sim_model \<Rightarrow> int list \<Rightarrow> sim_model" where
  "EvacuationModel_step m order =
     (let t = sim_time m + step_time_seconds m;
          m1 = m\<lparr>sim_time := t, hazard := map_option (\<lambda>h. update h t) (hazard m)\<rparr>;
          m2 = activate m1 order
      in post_pass m2 (map fst (person_agents m2)))"

text \<open>A model whose hazard spreads from \<open>eq_A\<close> at 15 m/s, one second after the start.\<close>

definition coastal_model :: sim_model where
  "coastal_model =
     demo_model\<lparr>hazard :=
       (case TsunamiHazard_init None (Some [eq_A]) (Some 15) of
          Inl _ \<Rightarrow> None
        | Inr h \<Rightarrow> Some (update h 1))\<rparr>"

text \<open>An agent that was overtaken on the first segment of its route, in a model where
  another agent is counted on that segment.\<close>

definition overtaken_agent :: person where
  "overtaken_agent = (walker [eq_A, eq_B, eq_C])\<lparr>state := Overtaken\<rparr>"

definition busy_model :: sim_model where
  "busy_model =
     demo_model\<lparr>congestion := enter_segment demo_congestion eq_A eq_B,
                person_agents := [(1000, overtaken_agent)]\<rparr>"

section \<open>Notions for the walk along a route\<close>

text \<open>The total haversine length of a route.\<close>

fun route_length :: "coord list \<Rightarrow> real" where
  "route_length (a # b # ps) = segment_length_m a b + route_length (b # ps)"
| "route_length ps = 0"

text \<open>All segments of a route have the length \<open>l\<close>.\<close>

definition equal_segments :: "coord list \<Rightarrow> real \<Rightarrow> bool" where
  "equal_segments r l \<longleftrightarrow>
     (\<forall>i. i + 1 < length r \<longrightarrow> segment_length_m (r ! i) (r ! (i + 1)) = l)"

text \<open>Every registered segment can take \<open>n\<close> more agents without exceeding its capacity.
  An agent enters at most one segment per node it still has to pass, so this much room
  keeps the speed multiplier at 1.0 for the rest of its walk.\<close>

definition headroom :: "congestion_manager \<Rightarrow> int \<Rightarrow> bool" where
  "headroom c n \<longleftrightarrow>
     (\<forall>k s. segment_data c k = Some s \<longrightarrow> density s + n \<le> capacity s \<and> n \<le> capacity s)"

text \<open>The hazard model, if there is one, reports no point as inundated at the model's
  time.\<close>

definition hazard_silent :: "sim_model \<Rightarrow> bool" where
  "hazard_silent m \<longleftrightarrow>
     (\<forall>h c. hazard m = Some h \<longrightarrow> \<not> is_inundated h c (Some (sim_time m)))"

text \<open>What the steps of an agent leave unchanged, relative to a starting model and agent,
  together with the room that is left in the congestion manager.\<close>

definition walking :: "sim_model \<Rightarrow> person \<Rightarrow> sim_model \<Rightarrow> person \<Rightarrow> bool" where
  "walking m0 p0 m p \<longleftrightarrow>
     route p = route p0 \<and> speed p = speed p0
     \<and> step_time_seconds m = step_time_seconds m0
     \<and> hazard m = hazard m0 \<and> sim_time m = sim_time m0
     \<and> headroom (congestion m) (int (length (route p)) - 1 - int (route_idx p))"

section \<open>Properties of the congestion manager\<close>

lemma cm_apply_strength: "congestion_strength (cm_apply c call) = congestion_strength c"
  by (cases call)
     (simp_all add: register_segment_def enter_segment_def leave_segment_def Let_def
        split: option.splits)

lemma foldl_cm_apply_strength:
  "congestion_strength (foldl cm_apply c calls) = congestion_strength c"
  by (induction calls arbitrary: c) (simp_all add: cm_apply_strength)

lemma cm_run_strength: "congestion_strength (cm_run calls) = 4 / 5"
  by (simp add: cm_run_def foldl_cm_apply_strength CongestionManager_init_def)

lemma register_lookup:
  "segment_data (register_segment c a b cap) k =
     (if k = seg_key a b \<and> segment_data c k = None
      then Some \<lparr>capacity = (case cap of None \<Rightarrow> default_capacity c
                               | Some n \<Rightarrow> if n = 0 then default_capacity c else n),
                  density = 0\<rparr>
      else segment_data c k)"
  by (cases "segment_data c (seg_key a b)") (auto simp: register_segment_def Let_def)

lemma enter_lookup:
  "segment_data (enter_segment c a b) k =
     (if k = seg_key a b
      then map_option (\<lambda>s. s\<lparr>density := density s + 1\<rparr>) (segment_data c k)
      else segment_data c k)"
  by (simp add: enter_segment_def Let_def split: option.splits)

lemma leave_lookup:
  "segment_data (leave_segment c a b) k =
     (if k = seg_key a b
      then map_option (\<lambda>s. s\<lparr>density := max 0 (density s - 1)\<rparr>) (segment_data c k)
      else segment_data c k)"
  by (simp add: leave_segment_def Let_def split: option.splits)

lemma densities_nonnegD:
  "densities_nonneg c \<Longrightarrow> segment_data c k = Some s \<Longrightarrow> 0 \<le> density s"
  unfolding densities_nonneg_def by blast

lemma register_nonneg:
  assumes "densities_nonneg c"
  shows "densities_nonneg (register_segment c a b cap)"
  unfolding densities_nonneg_def
proof (intro allI impI)
  fix k s
  assume h: "segment_data (register_segment c a b cap) k = Some s"
  show "0 \<le> density s"
  proof (cases "k = seg_key a b \<and> segment_data c k = None")
    case True
    then have "segment_data (register_segment c a b cap) k =
        Some \<lparr>capacity = (case cap of None \<Rightarrow> default_capacity c
                               | Some n \<Rightarrow> if n = 0 then default_capacity c else n),
              density = 0\<rparr>"
      by (auto simp: register_lookup)
    with h show ?thesis by auto
  next
    case False
    with h have "segment_data c k = Some s" by (simp add: register_lookup split: if_splits)
    then show ?thesis by (rule densities_nonnegD [OF assms])
  qed
qed

lemma enter_nonneg:
  assumes "densities_nonneg c"
  shows "densities_nonneg (enter_segment c a b)"
  unfolding densities_nonneg_def
proof (intro allI impI)
  fix k s
  assume h: "segment_data (enter_segment c a b) k = Some s"
  show "0 \<le> density s"
  proof (cases "k = seg_key a b")
    case True
    with h obtain s0 where s0: "segment_data c k = Some s0"
      and s: "s = s0\<lparr>density := density s0 + 1\<rparr>"
      by (auto simp: enter_lookup)
    from densities_nonnegD [OF assms s0] s show ?thesis by simp
  next
    case False
    with h have "segment_data c k = Some s" by (simp add: enter_lookup)
    then show ?thesis by (rule densities_nonnegD [OF assms])
  qed
qed

lemma leave_nonneg:
  assumes "densities_nonneg c"
  shows "densities_nonneg (leave_segment c a b)"
  unfolding densities_nonneg_def
proof (intro allI impI)
  fix k s
  assume h: "segment_data (leave_segment c a b) k = Some s"
  show "0 \<le> density s"
  proof (cases "k = seg_key a b")
    case True
    with h obtain s0 where "segment_data c k = Some s0"
      and s: "s = s0\<lparr>density := max 0 (density s0 - 1)\<rparr>"
      by (auto simp: leave_lookup)
    then show ?thesis by simp
  next
    case False
    with h have "segment_data c k = Some s" by (simp add: leave_lookup)
    then show ?thesis by (rule densities_nonnegD [OF assms])
  qed
qed

lemma cm_apply_nonneg: "densities_nonneg c \<Longrightarrow> densities_nonneg (cm_apply c call)"
  by (cases call) (simp_all add: register_nonneg enter_nonneg leave_nonneg)

lemma foldl_cm_apply_nonneg:
  "densities_nonneg c \<Longrightarrow> densities_nonneg (foldl cm_apply c calls)"
  by (induction calls arbitrary: c) (simp_all add: cm_apply_nonneg)

lemma init_nonneg: "densities_nonneg CongestionManager_init"
  by (simp add: densities_nonneg_def CongestionManager_init_def)


lemma key_AB:
  "seg_key node_A node_B = (node_A, node_B)" "seg_key node_B node_A = (node_A, node_B)"
  by (simp_all add: seg_key_def tuple_lt_def node_A_def node_B_def)

text \<open>
  \<^bold>\<open>Claim C7.\<close>  A manager is constructed by \<^verbatim>\<open>__init__\<close> and then receives any finite
  sequence of \<^verbatim>\<open>register_segment\<close>, \<^verbatim>\<open>enter_segment\<close> and \<^verbatim>\<open>leave_segment\<close> calls, in
  any interleaving (so also with more leaves than enters).  After every call, that is after
  every prefix \<open>take n calls\<close> of the sequence, the density of every registered segment is
  an integer that is at least 0.
\<close>

theorem density_never_negative:
  "segment_data (cm_run (take n calls)) k = Some s \<Longrightarrow> 0 \<le> density s"
  using foldl_cm_apply_nonneg [OF init_nonneg, of "take n calls"]
  by (auto simp: cm_run_def dest: densities_nonnegD)

theorem density_never_negative_witness:
  "segment_data (cm_run (take 5 leave_heavy_calls)) (node_A, node_B)
     = Some \<lparr>capacity = 1, density = 0\<rparr>
   \<and> 0 \<le> density \<lparr>capacity = 1, density = 0\<rparr>"
  using density_never_negative [of 5 leave_heavy_calls "(node_A, node_B)"
       "\<lparr>capacity = 1, density = 0\<rparr>"]
  by (simp add: leave_heavy_calls_def cm_run_def CongestionManager_init_def
      register_segment_def enter_segment_def leave_segment_def key_AB)

lemma overflow_formula_bounds:
  fixes x :: real
  assumes "0 < x"
  shows "0 < 1 / (1 + 0.8 * x)" and "1 / (1 + 0.8 * x) < 1"
proof -
  have "1 < 1 + 0.8 * x" using assms by simp
  then show "0 < 1 / (1 + 0.8 * x)" and "1 / (1 + 0.8 * x) < 1" by simp_all
qed

lemma overflow_formula_decreasing:
  fixes x y :: real
  assumes "0 < x" "x < y"
  shows "1 / (1 + 0.8 * y) < 1 / (1 + 0.8 * x)"
proof -
  have "0 < 1 + 0.8 * x" "1 + 0.8 * x < 1 + 0.8 * y" using assms by simp_all
  then show ?thesis by (simp add: frac_less2)
qed

text \<open>
  \<^bold>\<open>Claim C2.\<close>  For every manager reachable from \<^verbatim>\<open>__init__\<close> and every segment
  registered in it, \<^verbatim>\<open>get_speed_multiplier\<close> returns exactly 1 when density \<open>\<le>\<close> capacity and
  \<open>1 / (1 + 0.8 * (density - capacity))\<close> otherwise; the value lies in the interval
  \<open>(0, 1]\<close>; and above capacity it is strictly decreasing in the density: a reachable
  manager in which the same segment has the same capacity and a larger density gives a
  strictly smaller multiplier.
\<close>

theorem speed_multiplier_spec:
  assumes reg: "segment_data (cm_run calls) (seg_key a b) = Some s"
  shows "(density s \<le> capacity s \<longrightarrow> get_speed_multiplier (cm_run calls) a b = 1)
       \<and> (capacity s < density s \<longrightarrow>
            get_speed_multiplier (cm_run calls) a b
              = 1 / (1 + 0.8 * real_of_int (density s - capacity s)))
       \<and> 0 < get_speed_multiplier (cm_run calls) a b
       \<and> get_speed_multiplier (cm_run calls) a b \<le> 1
       \<and> (\<forall>calls' s'. segment_data (cm_run calls') (seg_key a b) = Some s'
              \<and> capacity s' = capacity s \<and> capacity s < density s \<and> density s < density s'
            \<longrightarrow> get_speed_multiplier (cm_run calls') a b < get_speed_multiplier (cm_run calls) a b)"
proof -
  let ?m = "get_speed_multiplier (cm_run calls) a b"
  define x where "x = real_of_int (density s - capacity s)"
  have le: "density s \<le> capacity s \<Longrightarrow> ?m = 1"
    using reg by (simp add: get_speed_multiplier_def)
  have gt: "capacity s < density s \<Longrightarrow> ?m = 1 / (1 + 0.8 * x)"
    using reg unfolding x_def by (simp add: get_speed_multiplier_def cm_run_strength)
  have xpos: "capacity s < density s \<Longrightarrow> 0 < x" unfolding x_def by simp
  have pos: "0 < ?m"
  proof (cases "density s \<le> capacity s")
    case True then show ?thesis using le by simp
  next
    case False
    then show ?thesis using gt overflow_formula_bounds(1) [OF xpos] by simp
  qed
  have le1: "?m \<le> 1"
  proof (cases "density s \<le> capacity s")
    case True then show ?thesis using le by simp
  next
    case False
    then show ?thesis using gt overflow_formula_bounds(2) [OF xpos] by simp
  qed
  have dec: "get_speed_multiplier (cm_run calls') a b < ?m"
    if h: "segment_data (cm_run calls') (seg_key a b) = Some s'"
      "capacity s' = capacity s" "capacity s < density s" "density s < density s'"
    for calls' s'
  proof -
    define y where "y = real_of_int (density s' - capacity s')"
    have m': "get_speed_multiplier (cm_run calls') a b = 1 / (1 + 0.8 * y)"
      using h unfolding y_def by (simp add: get_speed_multiplier_def cm_run_strength)
    have "x < y" using h unfolding x_def y_def by simp
    then show ?thesis unfolding m' gt [OF h(3)]
      by (rule overflow_formula_decreasing [OF xpos [OF h(3)]])
  qed
  show ?thesis using le gt pos le1 dec unfolding x_def by blast
qed

lemma two_on_AB_data:
  "segment_data (cm_run two_on_AB) (seg_key node_A node_B) = Some \<lparr>capacity = 1, density = 2\<rparr>"
  by (simp add: two_on_AB_def cm_run_def CongestionManager_init_def register_segment_def
      enter_segment_def key_AB)

lemma three_on_AB_data:
  "segment_data (cm_run (two_on_AB @ [Enter node_A node_B])) (seg_key node_A node_B)
     = Some \<lparr>capacity = 1, density = 3\<rparr>"
  by (simp add: two_on_AB_def cm_run_def CongestionManager_init_def register_segment_def
      enter_segment_def key_AB)

lemma one_on_AB_data:
  "segment_data (cm_run [Register node_A node_B None, Enter node_A node_B])
      (seg_key node_A node_B) = Some \<lparr>capacity = 8, density = 1\<rparr>"
  by (simp add: cm_run_def CongestionManager_init_def register_segment_def
      enter_segment_def key_AB)

theorem speed_multiplier_spec_witness:
  "segment_data (cm_run two_on_AB) (seg_key node_A node_B) = Some \<lparr>capacity = 1, density = 2\<rparr>
   \<and> get_speed_multiplier (cm_run two_on_AB) node_A node_B = 5 / 9
   \<and> get_speed_multiplier (cm_run (two_on_AB @ [Enter node_A node_B])) node_A node_B
       < get_speed_multiplier (cm_run two_on_AB) node_A node_B
   \<and> get_speed_multiplier (cm_run [Register node_A node_B None, Enter node_A node_B])
        node_A node_B = 1"
  using speed_multiplier_spec [OF two_on_AB_data] three_on_AB_data
    speed_multiplier_spec [OF one_on_AB_data] two_on_AB_data
  by auto

section \<open>Shelter occupancy\<close>

lemma add_occupant_keeps:
  "counted_below_capacity e \<Longrightarrow> counted_below_capacity (fst (add_occupant e))"
  by (cases "ec_capacity e")
     (auto simp: counted_below_capacity_def add_occupant_def can_accept_def)

lemma put_counted:
  "shelters_counted d \<Longrightarrow> counted_below_capacity e \<Longrightarrow>
   shelters_counted (put_evac_agent d i e)"
  by (induction d) (auto simp: shelters_counted_def put_evac_agent_def split: if_splits)

lemma lookup_counted:
  "shelters_counted d \<Longrightarrow> get_evac_agent_by_id d i = Some e \<Longrightarrow> counted_below_capacity e"
  by (induction d) (auto simp: shelters_counted_def get_evac_agent_by_id_def split: if_splits)

lemma notify_counted:
  "shelters_counted d \<Longrightarrow> shelters_counted (notify_evac_center d target)"
  by (auto simp: notify_evac_center_def split: option.splits
      intro!: put_counted add_occupant_keeps dest: lookup_counted)

lemma shelter_apply_counted:
  "shelters_counted d \<Longrightarrow> shelters_counted (shelter_apply d ev)"
  by (cases ev) (simp_all add: notify_counted)

lemma foldl_shelter_apply_counted:
  "shelters_counted d \<Longrightarrow> shelters_counted (foldl shelter_apply d evs)"
  by (induction evs arbitrary: d) (simp_all add: shelter_apply_counted)

lemma init_counted: "counted_below_capacity (EvacCenterAgent_init uid l cap)"
  by (simp add: counted_below_capacity_def EvacCenterAgent_init_def
      split: py_num.splits option.splits)

lemma append_counted:
  "shelters_counted d \<Longrightarrow> counted_below_capacity e \<Longrightarrow> shelters_counted (d @ [(i, e)])"
  by (simp add: shelters_counted_def)

lemma spawn_counted:
  "shelters_counted d \<Longrightarrow> shelters_counted (spawn_evac_rows col rows d)"
proof (induction rows arbitrary: d)
  case Nil
  then show ?case by simp
next
  case (Cons r rs)
  show ?case
  proof (cases "er_geometry r")
    case None
    with Cons show ?thesis by simp
  next
    case (Some l)
    have "shelters_counted
        (d @ [(1 + int (length d),
               EvacCenterAgent_init (1 + int (length d)) l
                 (Some (if col then er_capacity r else Num 9999)))])"
      by (rule append_counted [OF Cons.prems init_counted])
    from Cons.IH [OF this] Some show ?thesis by (simp add: Let_def)
  qed
qed

lemma counted_bounds:
  assumes "counted_below_capacity e"
  shows "0 \<le> occupants e"
    and "ec_capacity e = NaN \<Longrightarrow> occupants e = 0"
    and "ec_capacity e = Num c \<Longrightarrow> occupants e \<le> max 0 \<lceil>c\<rceil>"
    and "ec_capacity e = Num (real_of_int n) \<Longrightarrow> 0 \<le> n \<Longrightarrow> occupants e \<le> n"
proof -
  show "0 \<le> occupants e"
    using assms by (cases "ec_capacity e") (auto simp: counted_below_capacity_def)
  show "ec_capacity e = NaN \<Longrightarrow> occupants e = 0"
    using assms by (simp add: counted_below_capacity_def)
  show "occupants e \<le> max 0 \<lceil>c\<rceil>" if "ec_capacity e = Num c"
  proof (cases "occupants e = 0")
    case True
    then show ?thesis by simp
  next
    case False
    with assms that have "real_of_int (occupants e) < c + 1"
      by (simp add: counted_below_capacity_def)
    then have "real_of_int (occupants e - 1) < c" by simp
    then have "occupants e - 1 < \<lceil>c\<rceil>" by (simp only: less_ceiling_iff)
    then show ?thesis by simp
  qed
  show "occupants e \<le> n" if "ec_capacity e = Num (real_of_int n)" "0 \<le> n"
    using assms that by (auto simp: counted_below_capacity_def)
qed

text \<open>
  \<^bold>\<open>Claim C8\<close> (as amended).  The constructor keeps whatever capacity the shelter file
  gives, whole or not, negative, or NaN, and \<^verbatim>\<open>add_occupant\<close> counts an arrival exactly when
  the count is below the capacity.  So for the shelters spawned from any file, after every
  sequence of agent arrivals and \<^verbatim>\<open>add_occupant\<close> calls: the count is not negative; it is 0
  for a capacity that is NaN; it is at most the capacity rounded up to a whole number, and
  0 for a negative capacity; and it is at most the capacity when that is a whole number
  that is not negative (also in Python's comparison \<^verbatim>\<open>occupants <= capacity\<close>).
\<close>

theorem occupants_within_rounded_capacity:
  "get_evac_agent_by_id (foldl shelter_apply (spawn_evac_centers gdf) evs) i = Some e \<Longrightarrow>
   0 \<le> occupants e
   \<and> (ec_capacity e = NaN \<longrightarrow> occupants e = 0)
   \<and> (\<forall>c. ec_capacity e = Num c \<longrightarrow> occupants e \<le> max 0 \<lceil>c\<rceil>)
   \<and> (\<forall>n. ec_capacity e = Num (real_of_int n) \<and> 0 \<le> n \<longrightarrow>
          occupants e \<le> n \<and> num_le (Num (real_of_int (occupants e))) (ec_capacity e))"
proof -
  assume "get_evac_agent_by_id (foldl shelter_apply (spawn_evac_centers gdf) evs) i = Some e"
  moreover have "shelters_counted (foldl shelter_apply (spawn_evac_centers gdf) evs)"
    unfolding spawn_evac_centers_def
    by (intro foldl_shelter_apply_counted spawn_counted) (simp add: shelters_counted_def)
  ultimately have c: "counted_below_capacity e" by (rule lookup_counted [rotated])
  show ?thesis
    using counted_bounds [OF c] by auto
qed

theorem occupants_within_rounded_capacity_witness:
  "get_evac_agent_by_id
     (foldl shelter_apply (spawn_evac_centers one_place_file)
        [Arrival (Some 1), AddOccupant 1, Arrival (Some 1)]) 1
     = Some \<lparr>ec_id = 1, loc = (0, 0), ec_capacity = Num 1, occupants = 1\<rparr>
   \<and> occupants \<lparr>ec_id = 1, loc = (0, 0), ec_capacity = Num 1, occupants = 1\<rparr> \<le> max 0 \<lceil>1::real\<rceil>
   \<and> num_le (Num (real_of_int (occupants \<lparr>ec_id = 1, loc = (0, 0), ec_capacity = Num 1,
                                          occupants = 1\<rparr>))) (Num 1)
   \<and> get_evac_agent_by_id
       (foldl shelter_apply (spawn_evac_centers unknown_place_file)
          [Arrival (Some 1), AddOccupant 1]) 1
       = Some \<lparr>ec_id = 1, loc = (0, 0), ec_capacity = NaN, occupants = 0\<rparr>"
  using occupants_within_rounded_capacity [of one_place_file
      "[Arrival (Some 1), AddOccupant 1, Arrival (Some 1)]" 1
      "\<lparr>ec_id = 1, loc = (0, 0), ec_capacity = Num 1, occupants = 1\<rparr>"]
    occupants_within_rounded_capacity [of unknown_place_file
      "[Arrival (Some 1), AddOccupant 1]" 1
      "\<lparr>ec_id = 1, loc = (0, 0), ec_capacity = NaN, occupants = 0\<rparr>"]
  by (simp add: one_place_file_def unknown_place_file_def spawn_evac_centers_def
      EvacCenterAgent_init_def notify_evac_center_def get_evac_agent_by_id_def
      put_evac_agent_def add_occupant_def can_accept_def)

text \<open>
  Claim C8 as stated, for every shelter: the shelter of a file that gives the capacity
  one half counts its first arrival and then holds 1 occupant, more than its capacity; and
  the shelter of a file that gives the capacity \<open>-1\<close> holds 0 occupants, more than its
  capacity, before any arrival.
\<close>

theorem fractional_capacity_counterexample:
  "get_evac_agent_by_id
     (foldl shelter_apply (spawn_evac_centers half_place_file) [Arrival (Some 1)]) 1
     = Some \<lparr>ec_id = 1, loc = (0, 0), ec_capacity = Num (1 / 2), occupants = 1\<rparr>
   \<and> \<not> num_le (Num (real_of_int 1)) (Num (1 / 2))
   \<and> get_evac_agent_by_id (foldl shelter_apply (spawn_evac_centers negative_place_file) []) 1
     = Some \<lparr>ec_id = 1, loc = (0, 0), ec_capacity = Num (- 1), occupants = 0\<rparr>
   \<and> \<not> num_le (Num (real_of_int 0)) (Num (- 1))"
  by (simp add: half_place_file_def negative_place_file_def spawn_evac_centers_def
      EvacCenterAgent_init_def notify_evac_center_def get_evac_agent_by_id_def
      put_evac_agent_def add_occupant_def can_accept_def)

section \<open>Population limit\<close>




















section \<open>Hazard queries\<close>

lemma num_le_Num: "num_le x (Num t) \<longleftrightarrow> (\<exists>a. x = Num a \<and> a \<le> t)"
  by (cases x) simp_all

text \<open>
  \<^bold>\<open>Claim C4.\<close>  For every hazard model, point and time, \<^verbatim>\<open>is_inundated\<close> holds exactly when
  \<^verbatim>\<open>get_time_to_inundation\<close> gives a known arrival time that is at most the time asked for
  (the model's current time when none is given); an unknown arrival time gives False; a
  model that has neither polygons nor sources answers unknown and False to every query; and
  the constructor called without any strategy succeeds and yields such a model, also after
  \<^verbatim>\<open>update\<close>.  Both queries are total functions: the only exception the source can meet,
  inside a polygon test, is caught there.  An arrival time that is NaN (a polygon without
  the property in a file where other polygons have it) is not at most any time, so it
  gives False as well.
\<close>

theorem is_inundated_spec:
  "(is_inundated h p (Some t) \<longleftrightarrow> (\<exists>a. get_time_to_inundation h p = Some (Num a) \<and> a \<le> t))
   \<and> (is_inundated h p None
        \<longleftrightarrow> (\<exists>a. get_time_to_inundation h p = Some (Num a) \<and> a \<le> current_time h))
   \<and> (get_time_to_inundation h p = None \<longrightarrow> \<not> is_inundated h p time)
   \<and> (\<not> has_precomputed h \<and> \<not> has_dynamic h \<longrightarrow>
        get_time_to_inundation h p = None \<and> \<not> is_inundated h p time)
   \<and> (\<exists>h0. TsunamiHazard_init None None None = Inr h0
         \<and> get_time_to_inundation (update h0 t') p = None
         \<and> \<not> is_inundated (update h0 t') p time)
   \<and> (get_time_to_inundation h p = Some NaN \<longrightarrow> \<not> is_inundated h p time)"
  by (auto simp: is_inundated_def get_time_to_inundation_def TsunamiHazard_init_def
      hazard_blank_def update_def Let_def num_le_Num split: option.splits)

theorem is_inundated_spec_witness:
  "(\<exists>h. TsunamiHazard_init (Some west_file) None None = Inr h
       \<and> get_time_to_inundation h (0, 0) = Some (Num 5)
       \<and> is_inundated h (0, 0) (Some 6) \<and> \<not> is_inundated h (0, 0) (Some 4)
       \<and> is_inundated (update h 5) (0, 0) None
       \<and> get_time_to_inundation h (2, 0) = None \<and> \<not> is_inundated h (2, 0) (Some 6))
   \<and> \<not> has_precomputed hazard_blank \<and> \<not> has_dynamic hazard_blank
   \<and> get_time_to_inundation hazard_blank (0, 0) = None
   \<and> \<not> is_inundated hazard_blank (0, 0) (Some 6)
   \<and> (\<exists>h. TsunamiHazard_init (Some west_gap_file) None None = Inr h
       \<and> get_time_to_inundation h (0, 0) = Some NaN
       \<and> \<not> is_inundated h (0, 0) (Some 6))"
proof -
  define h where "h = hazard_blank\<lparr>polygons := [(west_half, Num 5)], has_precomputed := True\<rparr>"
  define g where "g = hazard_blank\<lparr>polygons := [(west_half, NaN)], has_precomputed := True\<rparr>"
  have i: "TsunamiHazard_init (Some west_file) None None = Inr h"
    by (simp add: TsunamiHazard_init_def west_file_def h_def feature_arrival_time_def)
  have j: "TsunamiHazard_init (Some west_gap_file) None None = Inr g"
    by (simp add: TsunamiHazard_init_def west_gap_file_def g_def feature_arrival_time_def)
  have g0: "get_time_to_inundation h (0, 0) = Some (Num 5)"
    by (simp add: get_time_to_inundation_def h_def west_half_def)
  have g2: "get_time_to_inundation h (2, 0) = None"
    by (simp add: get_time_to_inundation_def h_def west_half_def)
  have g0': "get_time_to_inundation (update h 5) (0, 0) = Some (Num 5)"
    by (simp add: get_time_to_inundation_def h_def west_half_def update_def)
  have gn: "get_time_to_inundation g (0, 0) = Some NaN"
    by (simp add: get_time_to_inundation_def g_def west_half_def)
  have ct: "current_time (update h 5) = 5" by (simp add: update_def)
  have b: "\<not> has_precomputed hazard_blank" "\<not> has_dynamic hazard_blank"
    by (simp_all add: hazard_blank_def)
  show ?thesis
    using is_inundated_spec [of h "(0, 0)" 6] is_inundated_spec [of h "(0, 0)" 4]
      is_inundated_spec [of "update h 5" "(0, 0)"]
      is_inundated_spec [of h "(2, 0)" _ "Some 6"]
      is_inundated_spec [of hazard_blank "(0, 0)" _ "Some 6"]
      is_inundated_spec [of g "(0, 0)" _ "Some 6"] i j g0 g2 g0' gn ct b
    by auto
qed

section \<open>Routing\<close>

lemma simple_paths_connected:
  "p \<in> set (simple_paths g avail u t) \<Longrightarrow> road_connected g u t"
proof (induction g avail u t arbitrary: p rule: simple_paths.induct)
  case (1 g avail u t)
  show ?case
  proof (cases "u = t")
    case True
    then show ?thesis by (simp add: road_connected_def)
  next
    case False
    with "1.prems" obtain v q where v: "v \<in> set avail" "adjacent g u v"
      and q: "q \<in> set (simple_paths g (removeAll v avail) v t)"
      by (subst (asm) simple_paths.simps) auto
    from "1.IH" [OF False _ q] v have "road_connected g v t" by simp
    with v(2) show ?thesis
      unfolding road_connected_def by (simp add: converse_rtrancl_into_rtrancl)
  qed
qed

lemma nearest_scan_mem:
  "nearest_scan pt ns best = Some (d, n) \<Longrightarrow>
   n \<in> set ns \<or> (\<exists>d'. best = Some (d', n))"
proof (induction ns arbitrary: best)
  case Nil
  then show ?case by simp
next
  case (Cons a ns)
  from Cons.prems Cons.IH show ?case
    by (fastforce simp: Let_def split: option.splits if_splits)
qed

lemma nearest_node_mem: "nearest_node g pt = Some n \<Longrightarrow> n \<in> set (g_nodes g)"
  using nearest_scan_mem [of pt "g_nodes g" None]
  by (auto simp: nearest_node_def)

lemma nearest_node_empty: "g_nodes g = [] \<Longrightarrow> nearest_node g pt = None"
  by (simp add: nearest_node_def)

lemma shortest_path_unreachable:
  assumes "a \<in> set (g_nodes g)" "b \<in> set (g_nodes g)" "\<not> road_connected g a b"
  shows "shortest_path g a b = Inl NetworkXNoPath"
proof -
  have "simple_paths g (removeAll a (g_nodes g)) a b = []"
  proof (cases "simple_paths g (removeAll a (g_nodes g)) a b")
    case Nil then show ?thesis .
  next
    case (Cons p ps)
    then have "p \<in> set (simple_paths g (removeAll a (g_nodes g)) a b)" by simp
    from simple_paths_connected [OF this] assms(3) show ?thesis by simp
  qed
  with assms(1,2) show ?thesis by (simp add: shortest_path_def)
qed

text \<open>
  \<^bold>\<open>Claim C3\<close> (as amended).  \<^verbatim>\<open>compute_shortest_route\<close> returns the empty sequence when the
  graph has no node.  When both query points snap to nodes between which the graph has no
  path, the library call raises \<^verbatim>\<open>NetworkXNoPath\<close> and \<^verbatim>\<open>compute_shortest_route\<close> lets it
  through; the empty sequence appears only at the callers in model.py, whose
  \<^verbatim>\<open>try\<close>/\<^verbatim>\<open>except\<close> turns the exception into \<^verbatim>\<open>[]\<close>.
\<close>

theorem route_empty_or_raises:
  "(g_nodes g = [] \<longrightarrow> compute_shortest_route g start endp = Inr [])
   \<and> (nearest_node g start = Some a \<and> nearest_node g endp = Some b \<and> \<not> road_connected g a b
        \<longrightarrow> compute_shortest_route g start endp = Inl NetworkXNoPath
          \<and> route_or_empty g start endp = [])"
proof -
  have 1: "g_nodes g = [] \<Longrightarrow> compute_shortest_route g start endp = Inr []"
    by (simp add: compute_shortest_route_def nearest_node_empty)
  have 2: "compute_shortest_route g start endp = Inl NetworkXNoPath"
    if h: "nearest_node g start = Some a" "nearest_node g endp = Some b" "\<not> road_connected g a b"
    using shortest_path_unreachable [OF nearest_node_mem [OF h(1)] nearest_node_mem [OF h(2)] h(3)] h
    by (simp add: compute_shortest_route_def)
  show ?thesis using 1 2 by (auto simp: route_or_empty_def)
qed

lemma two_streets_eq:
  "two_streets = \<lparr>g_nodes = [(0, 0), (1, 0), (5, 5), (6, 5)],
                  g_edges = [((0, 0), (1, 0), 1), ((5, 5), (6, 5), 1)]\<rparr>"
  by (simp add: two_streets_def build_road_graph_def empty_graph_def add_edge_def add_node_def
      distance_def same_edge_def Let_def)

lemma two_streets_adjacent:
  "adjacent two_streets u v \<longleftrightarrow>
     (u = (0, 0) \<and> v = (1, 0)) \<or> (u = (1, 0) \<and> v = (0, 0))
     \<or> (u = (5, 5) \<and> v = (6, 5)) \<or> (u = (6, 5) \<and> v = (5, 5))"
  by (auto simp: adjacent_def two_streets_eq same_edge_def)

lemma two_streets_nodes: "g_nodes two_streets = [(0, 0), (1, 0), (5, 5), (6, 5)]"
  by (simp add: two_streets_eq)

lemma two_streets_closed:
  assumes "road_connected two_streets u v" and "u \<in> {(0, 0), (1, 0)}"
  shows "v \<in> {(0, 0), (1, 0)}"
proof -
  from assms(1) have "(u, v) \<in> {(a, b). adjacent two_streets a b}\<^sup>*"
    by (simp add: road_connected_def)
  then show ?thesis
  proof (induction rule: rtrancl_induct)
    case base
    show ?case by (rule assms(2))
  next
    case (step y z)
    then have "adjacent two_streets y z" by simp
    with step.IH show ?case by (auto simp: two_streets_adjacent)
  qed
qed

lemma two_streets_apart: "\<not> road_connected two_streets (0, 0) (5, 5)"
  using two_streets_closed [of "(0, 0)" "(5, 5)"] by auto

lemma two_streets_nearest:
  "nearest_node two_streets (0, 0) = Some (0, 0)"
  "nearest_node two_streets (5, 5) = Some (5, 5)"
  by (simp_all add: nearest_node_def two_streets_eq Let_def power2_eq_square)

theorem route_empty_or_raises_witness:
  "g_nodes empty_graph = [] \<and> compute_shortest_route empty_graph (0, 0) (5, 5) = Inr []
   \<and> nearest_node two_streets (0, 0) = Some (0, 0)
   \<and> nearest_node two_streets (5, 5) = Some (5, 5)
   \<and> \<not> road_connected two_streets (0, 0) (5, 5)
   \<and> route_or_empty two_streets (0, 0) (5, 5) = []"
  using route_empty_or_raises [of empty_graph "(0, 0)" "(5, 5)"]
    route_empty_or_raises [of two_streets "(0, 0)" "(5, 5)" "(0, 0)" "(5, 5)"]
    two_streets_nearest two_streets_apart
  by (simp add: empty_graph_def)

text \<open>
  Claim C3 as stated: on a road file with two separate streets, a start on one street and
  an end on the other make \<^verbatim>\<open>compute_shortest_route\<close> raise instead of returning \<^verbatim>\<open>[]\<close>.
\<close>

theorem no_path_raises_counterexample:
  "nearest_node two_streets (0, 0) = Some (0, 0)
   \<and> nearest_node two_streets (5, 5) = Some (5, 5)
   \<and> \<not> road_connected two_streets (0, 0) (5, 5)
   \<and> compute_shortest_route two_streets (0, 0) (5, 5) = Inl NetworkXNoPath
   \<and> compute_shortest_route two_streets (0, 0) (5, 5) \<noteq> Inr []"
proof -
  have "shortest_path two_streets (0, 0) (5, 5) = Inl NetworkXNoPath"
    by (rule shortest_path_unreachable [OF _ _ two_streets_apart])
       (simp_all add: two_streets_nodes)
  then have "compute_shortest_route two_streets (0, 0) (5, 5) = Inl NetworkXNoPath"
    by (simp add: compute_shortest_route_def two_streets_nearest)
  with two_streets_nearest two_streets_apart show ?thesis by simp
qed

section \<open>Segment lengths\<close>

lemma pi_ge_3: "3 \<le> pi"
proof -
  have "sin (pi / 6) \<le> pi / 6" by (rule sin_x_le_x) simp
  then show ?thesis by (simp add: sin_30)
qed


lemma segment_length_equator:
  assumes "0 \<le> x2 - x1" "x2 - x1 < 180"
  shows "segment_length_m (x1, 0) (x2, 0) = 6371000 * radians (x2 - x1)"
proof -
  define d where "d = radians (x2 - x1) / 2"
  have d0: "0 \<le> d" using assms(1) by (simp add: d_def radians_def)
  have "radians (x2 - x1) < pi" using assms(2) by (simp add: radians_def)
  then have d1: "d < pi / 2" by (simp add: d_def)
  have s: "0 \<le> sin d" using d0 d1 by (intro sin_ge_zero) simp_all
  have c: "0 < cos d" using d0 d1 by (intro cos_gt_zero_pi) simp_all
  have hav: "(sin d)\<^sup>2 + cos 0 * cos 0 * (sin d)\<^sup>2 - (sin d)\<^sup>2 = (sin d)\<^sup>2" by simp
  have 1: "sqrt ((sin d)\<^sup>2) = sin d" using s by simp
  have 2: "sqrt (1 - (sin d)\<^sup>2) = cos d"
    using c by (simp add: cos_squared_eq [symmetric])
  have "arctan (tan d) = d" using d0 d1 by (intro arctan_tan) simp_all
  then have 3: "atan2 (sin d) (cos d) = d"
    using c by (simp add: atan2_def tan_def)
  have "segment_length_m (x1, 0) (x2, 0) = 6371000 * (2 * atan2 (sqrt ((sin d)\<^sup>2)) (sqrt (1 - (sin d)\<^sup>2)))"
    by (simp add: segment_length_m_def Let_def d_def radians_def)
  also have "\<dots> = 6371000 * (2 * d)" by (simp only: 1 2 3)
  finally show ?thesis by (simp add: d_def)
qed


section \<open>The demonstration model\<close>

lemma demo_congestion_data:
  "segment_data demo_congestion =
     [(eq_A, eq_A) \<mapsto> \<lparr>capacity = 8, density = 0\<rparr>,
      (eq_A, eq_B) \<mapsto> \<lparr>capacity = 8, density = 0\<rparr>,
      (eq_B, eq_C) \<mapsto> \<lparr>capacity = 8, density = 0\<rparr>]"
  by (simp add: demo_congestion_def cm_run_def CongestionManager_init_def register_segment_def
      seg_key_def tuple_lt_def eq_A_def eq_B_def eq_C_def Let_def)

lemma demo_keys:
  "seg_key eq_A eq_A = (eq_A, eq_A)" "seg_key eq_A eq_B = (eq_A, eq_B)"
  "seg_key eq_B eq_C = (eq_B, eq_C)"
  by (simp_all add: seg_key_def tuple_lt_def eq_A_def eq_B_def eq_C_def)

section \<open>Movement steps at concrete agents\<close>

lemma rollover_stop:
  "\<not> (1 \<le> segment_progress p \<and> int (route_idx p) < int (length (route p)) - 1) \<Longrightarrow>
   rollover c p = (c, p)"
  by (subst rollover.simps) auto

lemma rollover_go:
  "1 \<le> segment_progress p \<Longrightarrow> int (route_idx p) < int (length (route p)) - 1 \<Longrightarrow>
   rollover c p =
     rollover (enter_current (leave_current c p)
                 (p\<lparr>route_idx := route_idx p + 1, segment_progress := segment_progress p - 1\<rparr>))
              (p\<lparr>route_idx := route_idx p + 1, segment_progress := segment_progress p - 1\<rparr>)"
  by (subst rollover.simps) (simp add: Let_def)

lemma step_positive_length:
  assumes "state p = Evacuating" "current_segment p = Some (a, b)" "segment_length_m a b \<noteq> 0"
  shows "PersonAgent_step m p =
           hazard_check (fst (advance_along m p a b (segment_length_m a b)))
                        (snd (advance_along m p a b (segment_length_m a b)))"
proof -
  have "\<not> (route p = [] \<or> int (length (route p)) - 1 \<le> int (route_idx p))"
  proof
    assume "route p = [] \<or> int (length (route p)) - 1 \<le> int (route_idx p)"
    then have "current_segment p = None" by (simp only: current_segment_def if_True)
    with assms(2) show False by simp
  qed
  then have "\<not> int (length (route p)) - 1 \<le> int (route_idx p)" by simp
  with assms show ?thesis
    by (simp add: PersonAgent_step_def Let_def split_beta)
qed

lemma hazard_check_blank: "hazard m = Some hazard_blank \<Longrightarrow> hazard_check m p = (m, p)"
  by (simp add: hazard_check_def get_time_to_inundation_def hazard_blank_def)

lemma len_AB_eq: "len_AB = 6371000 * radians (8 / 1000000)"
  unfolding len_AB_def eq_A_def eq_B_def
  using segment_length_equator [where ?x1.0 = 0 and ?x2.0 = "8 / 1000000"] by simp

lemma len_AB_bounds: "849 / 1000 < len_AB" "len_AB < 1133 / 1000"
  using pi_ge_3 pi_less_4 by (simp_all add: len_AB_eq radians_def)

lemma len_BC: "segment_length_m eq_B eq_C = len_AB"
  unfolding len_AB_eq eq_B_def eq_C_def
  using segment_length_equator [where ?x1.0 = "8 / 1000000" and ?x2.0 = "16 / 1000000"] by simp

lemma demo_multiplier:
  "get_speed_multiplier (congestion demo_model) eq_A eq_B = 1"
  "get_speed_multiplier (congestion demo_model) eq_B eq_C = 1"
  by (simp_all add: get_speed_multiplier_def demo_model_def demo_congestion_data demo_keys)

lemma walker_fields:
  "state (walker r) = Evacuating" "route (walker r) = r" "route_idx (walker r) = 0"
  "segment_progress (walker r) = 0" "speed (walker r) = 7 / 5" "pos (walker r) = hd r"
  "evac_center_id (walker r) = Some 1" "reached (walker r) = False"
  by (simp_all add: walker_def PersonAgent_init_def)

lemma demo_fields:
  "hazard demo_model = Some hazard_blank" "step_time_seconds demo_model = 1"
  "sim_time demo_model = 1"
  by (simp_all add: demo_model_def)

text \<open>
  \<^bold>\<open>Claim C5\<close> fails on the code.  The position is interpolated between \<open>start_node\<close> and
  \<open>end_node\<close>, which were read before the rollover loop, at the progress left after it.
  An agent with the default speed and a one-second tick, at the start of the route
  \<open>eq_A, eq_B, eq_C\<close>, rolls over once: its cursor is then on the second segment at a
  progress strictly between 0 and 1, and its position is that fraction of the first
  segment, not of the segment at its cursor.
\<close>

theorem position_after_rollover_is_stale:
  "state (snd (PersonAgent_step demo_model (walker [eq_A, eq_B, eq_C]))) = Evacuating
   \<and> route_idx (snd (PersonAgent_step demo_model (walker [eq_A, eq_B, eq_C]))) = 1
   \<and> segment_progress (snd (PersonAgent_step demo_model (walker [eq_A, eq_B, eq_C])))
       = 7 / 5 / len_AB - 1
   \<and> 0 < 7 / 5 / len_AB - 1 \<and> 7 / 5 / len_AB - 1 < 1
   \<and> pos (snd (PersonAgent_step demo_model (walker [eq_A, eq_B, eq_C])))
       = interpolate eq_A eq_B (7 / 5 / len_AB - 1)
   \<and> pos (snd (PersonAgent_step demo_model (walker [eq_A, eq_B, eq_C])))
       \<noteq> interpolate eq_B eq_C (7 / 5 / len_AB - 1)"
proof -
  define w where "w = walker [eq_A, eq_B, eq_C]"
  define x where "x = 7 / 5 / len_AB - 1"
  have lpos: "0 < len_AB" using len_AB_bounds(1) by simp
  have x0: "0 < x" and x1: "x < 1"
    using len_AB_bounds lpos by (simp_all add: x_def field_simps)
  have wf: "state w = Evacuating" "route w = [eq_A, eq_B, eq_C]" "route_idx w = 0"
    "segment_progress w = 0" "speed w = 7 / 5"
    by (simp_all add: w_def walker_fields)
  have cs: "current_segment w = Some (eq_A, eq_B)"
    by (simp add: current_segment_def wf)
  have nz: "segment_length_m eq_A eq_B \<noteq> 0" using lpos by (simp add: len_AB_def)
  define p1 where "p1 = w\<lparr>segment_progress := x + 1\<rparr>"
  define p2 where "p2 = p1\<lparr>route_idx := route_idx p1 + 1, segment_progress := segment_progress p1 - 1\<rparr>"
  define c2 where "c2 = enter_current (leave_current (congestion demo_model) p1) p2"
  have p1f: "segment_progress p1 = x + 1" "route_idx p1 = 0" "route p1 = [eq_A, eq_B, eq_C]"
    by (simp_all add: p1_def wf)
  have p2f: "segment_progress p2 = x" "route_idx p2 = 1" "route p2 = [eq_A, eq_B, eq_C]"
    "state p2 = Evacuating"
    by (simp_all add: p2_def p1_def wf)
  have r1: "rollover (congestion demo_model) p1 = rollover c2 p2"
    unfolding c2_def p2_def by (rule rollover_go) (use x0 in \<open>simp_all add: p1f\<close>)
  have r2: "rollover c2 p2 = (c2, p2)"
    by (rule rollover_stop) (use x1 in \<open>simp add: p2f\<close>)
  have adv: "advance_along demo_model w eq_A eq_B (segment_length_m eq_A eq_B)
      = (demo_model\<lparr>congestion := c2\<rparr>, p2\<lparr>pos := interpolate eq_A eq_B x\<rparr>)"
  proof -
    have "w\<lparr>segment_progress := segment_progress w + speed w * 1 * step_time_seconds demo_model / len_AB\<rparr> = p1"
      by (simp add: p1_def wf demo_fields x_def)
    then show ?thesis
      using x0 x1
      by (simp add: advance_along_def demo_multiplier len_AB_def [symmetric] r1 r2 p2f Let_def)
  qed
  have "PersonAgent_step demo_model w
      = (demo_model\<lparr>congestion := c2\<rparr>, p2\<lparr>pos := interpolate eq_A eq_B x\<rparr>)"
    unfolding step_positive_length [OF wf(1) cs nz] adv
    by (simp add: hazard_check_blank demo_fields)
  moreover have "interpolate eq_A eq_B x \<noteq> interpolate eq_B eq_C x"
    using x1 by (simp add: interpolate_def eq_A_def eq_B_def eq_C_def)
  ultimately show ?thesis
    unfolding w_def [symmetric] x_def [symmetric] using x0 x1 by (simp add: p2f)
qed

section \<open>A segment without length\<close>



section \<open>Terminal states\<close>

text \<open>What holds for an agent in a terminal state: its own step changes nothing, and the
  post-step loop of the orchestrator keeps the agent as it is but releases the segment at
  its cursor.\<close>

lemma terminal_agent_step_noop:
  "state p \<noteq> Evacuating \<Longrightarrow> PersonAgent_step m p = (m, p)"
  by (simp add: PersonAgent_step_def)

lemma terminal_agent_post_step:
  "state p = Safe \<or> state p = Overtaken \<or> state p = Stuck \<Longrightarrow>
   post_step_person m p = (m\<lparr>congestion := leave_current (congestion m) p\<rparr>, p)"
  by (auto simp: post_step_person_def terminal_cleanup_def)

lemma coastal_hazard:
  "hazard coastal_model =
     Some (hazard_blank\<lparr>prop_speed := Some 15, source_points_m := [lonlat_to_meters eq_A],
                         has_dynamic := True, current_time := 1\<rparr>)"
  by (simp add: coastal_model_def TsunamiHazard_init_def update_def)

lemma equator_to_meters: "lonlat_to_meters (x, 0) = (6378137 * (x * pi / 180), 0)"
  by (simp add: lonlat_to_meters_def tan_45)

lemma coastal_arrival:
  assumes "0 \<le> x"
  shows "get_time_to_inundation
           (hazard_blank\<lparr>prop_speed := Some 15, source_points_m := [lonlat_to_meters eq_A],
                          has_dynamic := True, current_time := 1\<rparr>) (x, 0)
         = Some (Num (6378137 * (x * pi / 180) / 15))"
  using assms
  by (simp add: get_time_to_inundation_def hazard_blank_def eq_A_def equator_to_meters
      meters_distance_def Let_def)

lemma coastal_fields:
  "congestion coastal_model = demo_congestion" "step_time_seconds coastal_model = 1"
  "sim_time coastal_model = 1"
  "evac_agents coastal_model = [(1, EvacCenterAgent_init 1 eq_B (Some (Num 5)))]"
  by (simp_all add: coastal_model_def demo_model_def)

text \<open>
  \<^bold>\<open>Claim C1\<close> fails on the code.  The arrival check at the end of the movement calls
  \<^verbatim>\<open>_arrive\<close> without returning, so the agent-level hazard check that follows still runs:
  an agent that reaches the last node of \<open>eq_A, eq_B\<close> at a place the hazard has reached is
  marked safe, counted in its shelter, and overtaken in the same call of \<^verbatim>\<open>step\<close>.  (The
  branch at the top of \<^verbatim>\<open>step\<close> that calls \<^verbatim>\<open>_arrive\<close> does return.)
\<close>

theorem safe_then_overtaken_in_one_step:
  "state (walker [eq_A, eq_B]) = Evacuating
   \<and> state (snd (advance_along coastal_model (walker [eq_A, eq_B]) eq_A eq_B
                  (segment_length_m eq_A eq_B))) = Safe
   \<and> state (snd (PersonAgent_step coastal_model (walker [eq_A, eq_B]))) = Overtaken
   \<and> \<not> reached (snd (PersonAgent_step coastal_model (walker [eq_A, eq_B])))
   \<and> map (\<lambda>(i, e). occupants e) (evac_agents coastal_model) = [0]
   \<and> map (\<lambda>(i, e). occupants e)
        (evac_agents (fst (PersonAgent_step coastal_model (walker [eq_A, eq_B])))) = [1]"
proof -
  define w where "w = walker [eq_A, eq_B]"
  define x where "x = 7 / 5 / len_AB - 1"
  have lpos: "0 < len_AB" using len_AB_bounds(1) by simp
  have x0: "0 < x" and x1: "x < 1"
    using len_AB_bounds lpos by (simp_all add: x_def field_simps)
  have wf: "state w = Evacuating" "route w = [eq_A, eq_B]" "route_idx w = 0"
    "segment_progress w = 0" "speed w = 7 / 5" "evac_center_id w = Some 1"
    by (simp_all add: w_def walker_fields)
  have cs: "current_segment w = Some (eq_A, eq_B)"
    by (simp add: current_segment_def wf)
  have nz: "segment_length_m eq_A eq_B \<noteq> 0" using lpos by (simp add: len_AB_def)
  define p1 where "p1 = w\<lparr>segment_progress := x + 1\<rparr>"
  define p2 where "p2 = p1\<lparr>route_idx := route_idx p1 + 1, segment_progress := segment_progress p1 - 1\<rparr>"
  define c2 where "c2 = enter_current (leave_current (congestion coastal_model) p1) p2"
  have p1f: "segment_progress p1 = x + 1" "route_idx p1 = 0" "route p1 = [eq_A, eq_B]"
    by (simp_all add: p1_def wf)
  have p2f: "segment_progress p2 = x" "route_idx p2 = 1" "route p2 = [eq_A, eq_B]"
    "state p2 = Evacuating" "evac_center_id p2 = Some 1"
    by (simp_all add: p2_def p1_def wf)
  have r1: "rollover (congestion coastal_model) p1 = rollover c2 p2"
    unfolding c2_def p2_def by (rule rollover_go) (use x0 in \<open>simp_all add: p1f\<close>)
  have r2: "rollover c2 p2 = (c2, p2)"
    by (rule rollover_stop) (simp add: p2f)
  define here where "here = interpolate eq_A eq_B x"
  have here: "here = (8 / 1000000 * x, 0)"
    by (simp add: here_def interpolate_def eq_A_def eq_B_def)
  have near: "segment_length_m here eq_B < 1"
  proof -
    have "segment_length_m here eq_B = 6371000 * radians (8 / 1000000 - 8 / 1000000 * x)"
      unfolding here eq_B_def
      by (rule segment_length_equator) (use x0 x1 in \<open>simp_all add: field_simps\<close>)
    also have "\<dots> = (1 - x) * len_AB"
      by (simp add: len_AB_eq radians_def field_simps)
    also have "\<dots> = 2 * len_AB - 7 / 5"
      using lpos by (simp add: x_def field_simps)
    also have "\<dots> < 1" using len_AB_bounds(2) by simp
    finally show ?thesis .
  qed
  define p3 where "p3 = p2\<lparr>pos := here\<rparr>"
  have p3f: "route_idx p3 = 1" "route p3 = [eq_A, eq_B]" "pos p3 = here"
    "evac_center_id p3 = Some 1" "state p3 = Evacuating"
    by (simp_all add: p3_def p2f)
  define m3 where "m3 = coastal_model\<lparr>congestion := c2\<rparr>"
  have adv: "advance_along coastal_model w eq_A eq_B (segment_length_m eq_A eq_B) = arrive m3 p3"
  proof -
    have "w\<lparr>segment_progress := segment_progress w
             + speed w * get_speed_multiplier (congestion coastal_model) eq_A eq_B
               * step_time_seconds coastal_model / len_AB\<rparr> = p1"
      using demo_multiplier(1)
      by (simp add: p1_def wf coastal_fields demo_model_def x_def)
    then show ?thesis
      using x0 x1 near
      by (simp add: advance_along_def len_AB_def [symmetric] r1 r2 p2f Let_def
          here_def [symmetric] p3_def [symmetric] m3_def [symmetric] p3f eq_B_def [symmetric])
  qed
  define m4 where "m4 = fst (arrive m3 p3)"
  define p4 where "p4 = snd (arrive m3 p3)"
  have p4f: "state p4 = Safe" "pos p4 = here" "reached p4"
    by (simp_all add: p4_def arrive_def Let_def p3f)
  have m4f: "hazard m4 = hazard coastal_model" "sim_time m4 = 1"
    "evac_agents m4 = [(1, (EvacCenterAgent_init 1 eq_B (Some (Num 5)))\<lparr>occupants := 1\<rparr>)]"
    by (simp_all add: m4_def arrive_def Let_def m3_def coastal_fields p3f
        notify_evac_center_def get_evac_agent_by_id_def put_evac_agent_def add_occupant_def
        can_accept_def EvacCenterAgent_init_def)
  have arr: "get_time_to_inundation
      (hazard_blank\<lparr>prop_speed := Some 15, source_points_m := [lonlat_to_meters eq_A],
                         has_dynamic := True, current_time := 1\<rparr>) here
      = Some (Num (6378137 * (8 / 1000000 * x * pi / 180) / 15))"
    unfolding here by (rule coastal_arrival) (use x0 in simp)
  have soon: "6378137 * (8 / 1000000 * x * pi / 180) / 15 \<le> 1"
  proof -
    have "x * pi \<le> 1 * 4" using x0 x1 pi_less_4 by (intro mult_mono) simp_all
    then show ?thesis by (simp add: field_simps)
  qed
  have hz: "hazard_check m4 p4 = become_overtaken m4 p4"
    using soon by (simp add: hazard_check_def m4f coastal_hazard p4f arr)
  have step: "PersonAgent_step coastal_model w = become_overtaken m4 p4"
    unfolding step_positive_length [OF wf(1) cs nz] adv
    using hz by (simp add: m4_def p4_def)
  have "state (snd (advance_along coastal_model w eq_A eq_B (segment_length_m eq_A eq_B))) = Safe"
    unfolding adv using p4f(1) by (simp add: p4_def)
  moreover have "state (snd (PersonAgent_step coastal_model w)) = Overtaken"
    "\<not> reached (snd (PersonAgent_step coastal_model w))"
    "evac_agents (fst (PersonAgent_step coastal_model w)) = evac_agents m4"
    unfolding step by (simp_all add: become_overtaken_def)
  ultimately show ?thesis
    unfolding w_def [symmetric]
    by (simp add: wf m4f coastal_fields EvacCenterAgent_init_def)
qed

text \<open>
  The second way in which a terminal state is not inert: an agent overtaken in the middle
  of its route keeps its route and cursor, so every later tick of the orchestrator
  releases that segment once more and takes the count of another agent away.
\<close>

theorem cleanup_releases_again_each_tick:
  "state overtaken_agent = Overtaken
   \<and> get_density (congestion busy_model) eq_A eq_B = 1
   \<and> get_density (congestion (EvacuationModel_step busy_model [1000])) eq_A eq_B = 0
   \<and> person_agents (EvacuationModel_step busy_model [1000]) = [(1000, overtaken_agent)]"
proof -
  have st: "state overtaken_agent = Overtaken" by (simp add: overtaken_agent_def)
  have cs: "current_segment overtaken_agent = Some (eq_A, eq_B)"
    by (simp add: overtaken_agent_def current_segment_def walker_fields)
  define m1 where "m1 = busy_model\<lparr>sim_time := sim_time busy_model + step_time_seconds busy_model,
      hazard := map_option (\<lambda>h. update h (sim_time busy_model + step_time_seconds busy_model))
                  (hazard busy_model)\<rparr>"
  have m1f: "person_agents m1 = [(1000, overtaken_agent)]"
    "congestion m1 = enter_segment demo_congestion eq_A eq_B"
    by (simp_all add: m1_def busy_model_def)
  have act: "activate m1 [1000] = m1"
    using st by (simp add: m1f terminal_agent_step_noop set_person_def)
  have post: "post_pass m1 [1000]
      = m1\<lparr>congestion := leave_segment (enter_segment demo_congestion eq_A eq_B) eq_A eq_B\<rparr>"
    using st by (simp add: m1f terminal_agent_post_step leave_current_def cs set_person_def)
  have step: "EvacuationModel_step busy_model [1000]
      = m1\<lparr>congestion := leave_segment (enter_segment demo_congestion eq_A eq_B) eq_A eq_B\<rparr>"
  proof -
    have "EvacuationModel_step busy_model [1000]
        = post_pass (activate m1 [1000]) (map fst (person_agents (activate m1 [1000])))"
      by (simp only: EvacuationModel_step_def Let_def m1_def)
    also have "\<dots> = post_pass m1 [1000]" by (simp only: act m1f list.map fst_conv)
    finally show ?thesis by (simp only: post)
  qed
  have d1: "get_density (enter_segment demo_congestion eq_A eq_B) eq_A eq_B = 1"
    by (simp add: get_density_def enter_segment_def demo_congestion_data demo_keys Let_def)
  have d0: "get_density (leave_segment (enter_segment demo_congestion eq_A eq_B) eq_A eq_B)
      eq_A eq_B = 0"
    by (simp add: get_density_def enter_segment_def leave_segment_def demo_congestion_data
        demo_keys Let_def)
  show ?thesis
    unfolding step using st d1 d0 by (simp add: m1f) (simp add: busy_model_def)
qed

section \<open>Walking a route with equal segments\<close>

lemma headroomD:
  "headroom c n \<Longrightarrow> segment_data c k = Some s \<Longrightarrow> density s + n \<le> capacity s \<and> n \<le> capacity s"
  unfolding headroom_def by blast

lemma headroom_mono: "headroom c n \<Longrightarrow> n' \<le> n \<Longrightarrow> headroom c n'"
  unfolding headroom_def by fastforce

lemma headroom_leave:
  assumes "headroom c n"
  shows "headroom (leave_segment c a b) n"
  unfolding headroom_def
proof (intro allI impI)
  fix k s
  assume h: "segment_data (leave_segment c a b) k = Some s"
  show "density s + n \<le> capacity s \<and> n \<le> capacity s"
  proof (cases "k = seg_key a b")
    case True
    with h obtain s0 where s0: "segment_data c k = Some s0"
      and s: "s = s0\<lparr>density := max 0 (density s0 - 1)\<rparr>"
      by (auto simp: leave_lookup)
    from headroomD [OF assms s0] s show ?thesis by auto
  next
    case False
    with h have "segment_data c k = Some s" by (simp add: leave_lookup)
    then show ?thesis by (rule headroomD [OF assms])
  qed
qed

lemma headroom_enter:
  assumes "headroom c (n + 1)" "0 \<le> n"
  shows "headroom (enter_segment c a b) n"
  unfolding headroom_def
proof (intro allI impI)
  fix k s
  assume h: "segment_data (enter_segment c a b) k = Some s"
  show "density s + n \<le> capacity s \<and> n \<le> capacity s"
  proof (cases "k = seg_key a b")
    case True
    with h obtain s0 where s0: "segment_data c k = Some s0"
      and s: "s = s0\<lparr>density := density s0 + 1\<rparr>"
      by (auto simp: enter_lookup)
    from headroomD [OF assms(1) s0] s show ?thesis by auto
  next
    case False
    with h have "segment_data c k = Some s" by (simp add: enter_lookup)
    from headroomD [OF assms(1) this] show ?thesis by auto
  qed
qed

lemma headroom_multiplier:
  assumes "headroom c n" "0 \<le> n"
  shows "get_speed_multiplier c a b = 1"
proof (cases "segment_data c (seg_key a b)")
  case None
  then show ?thesis by (simp add: get_speed_multiplier_def)
next
  case (Some s)
  from headroomD [OF assms(1) Some] assms(2) have "density s \<le> capacity s" by simp
  with Some show ?thesis by (simp add: get_speed_multiplier_def)
qed

lemma headroom_leave_current: "headroom c n \<Longrightarrow> headroom (leave_current c p) n"
  by (auto simp: leave_current_def headroom_leave split: option.splits)

lemma headroom_enter_current:
  "headroom c (n + 1) \<Longrightarrow> 0 \<le> n \<Longrightarrow> headroom (enter_current c p) n"
  by (auto simp: enter_current_def headroom_enter headroom_mono split: option.splits)

lemma rollover_props:
  assumes "headroom c (int (length (route p)) - 1 - int (route_idx p))"
    and "0 \<le> segment_progress p"
    and "route_idx p + 1 \<le> length (route p)"
    and "rollover c p = (c', p')"
  shows "p' = p\<lparr>route_idx := route_idx p', segment_progress := segment_progress p'\<rparr>
       \<and> real (route_idx p') + segment_progress p' = real (route_idx p) + segment_progress p
       \<and> route_idx p' + 1 \<le> length (route p)
       \<and> 0 \<le> segment_progress p'
       \<and> \<not> (1 \<le> segment_progress p' \<and> route_idx p' + 1 < length (route p))
       \<and> headroom c' (int (length (route p)) - 1 - int (route_idx p'))"
  using assms
proof (induction c p arbitrary: c' p' rule: rollover.induct)
  case (1 c p)
  show ?case
  proof (cases "1 \<le> segment_progress p \<and> int (route_idx p) < int (length (route p)) - 1")
    case False
    then have "rollover c p = (c, p)" by (rule rollover_stop)
    with "1.prems" False show ?thesis by auto
  next
    case True
    define p1 where "p1 = p\<lparr>route_idx := route_idx p + 1,
      segment_progress := segment_progress p - 1\<rparr>"
    define c1 where "c1 = leave_current c p"
    define c2 where "c2 = enter_current c1 p1"
    have p1f: "route p1 = route p" "route_idx p1 = route_idx p + 1"
      "segment_progress p1 = segment_progress p - 1"
      by (simp_all add: p1_def)
    have go: "rollover c p = rollover c2 p1"
      unfolding c2_def c1_def p1_def using True by (intro rollover_go) simp_all
    have h1: "headroom c1 (int (length (route p)) - 1 - int (route_idx p))"
      unfolding c1_def by (rule headroom_leave_current [OF "1.prems"(1)])
    have h2: "headroom c2 (int (length (route p1)) - 1 - int (route_idx p1))"
      unfolding c2_def
    proof (rule headroom_enter_current)
      have "int (length (route p1)) - 1 - int (route_idx p1) + 1
          = int (length (route p)) - 1 - int (route_idx p)" by (simp add: p1f)
      with h1 show "headroom c1 (int (length (route p1)) - 1 - int (route_idx p1) + 1)"
        by (simp only:)
      show "0 \<le> int (length (route p1)) - 1 - int (route_idx p1)"
        using True by (simp add: p1f)
    qed
    have IH: "p' = p1\<lparr>route_idx := route_idx p', segment_progress := segment_progress p'\<rparr>
       \<and> real (route_idx p') + segment_progress p' = real (route_idx p1) + segment_progress p1
       \<and> route_idx p' + 1 \<le> length (route p1)
       \<and> 0 \<le> segment_progress p'
       \<and> \<not> (1 \<le> segment_progress p' \<and> route_idx p' + 1 < length (route p1))
       \<and> headroom c' (int (length (route p1)) - 1 - int (route_idx p'))"
    proof (rule "1.IH" [OF True c1_def p1_def h2 [unfolded c2_def]])
      show "0 \<le> segment_progress p1" using True by (simp add: p1f)
      show "route_idx p1 + 1 \<le> length (route p1)" using True by (simp add: p1f)
      show "rollover (enter_current c1 p1) p1 = (c', p')"
        using "1.prems"(4) go by (simp add: c2_def)
    qed
    then show ?thesis by (simp add: p1f) (simp add: p1_def)
  qed
qed

lemma hazard_check_silent:
  assumes "hazard_silent m"
  shows "hazard_check m p = (m, p)"
proof (cases "hazard m")
  case None
  then show ?thesis by (simp add: hazard_check_def)
next
  case (Some h)
  with assms have "\<not> is_inundated h (pos p) (Some (sim_time m))"
    unfolding hazard_silent_def by blast
  with Some show ?thesis
    by (simp add: hazard_check_def is_inundated_def split: option.splits)
qed

lemma hazard_silent_cong:
  "hazard_silent m \<Longrightarrow> hazard m' = hazard m \<Longrightarrow> sim_time m' = sim_time m \<Longrightarrow> hazard_silent m'"
  by (simp add: hazard_silent_def)

lemma arrive_props:
  "state (snd (arrive m p)) = Safe" "hazard (fst (arrive m p)) = hazard m"
  "sim_time (fst (arrive m p)) = sim_time m"
  by (simp_all add: arrive_def Let_def)

lemma step_at_end:
  assumes "state p = Evacuating" "length (route p) \<le> route_idx p + 1"
  shows "state (snd (PersonAgent_step m p)) = Safe"
proof -
  from assms(2) have "int (length (route p)) - 1 \<le> int (route_idx p)" by simp
  with assms(1) show ?thesis by (simp add: PersonAgent_step_def arrive_props)
qed

lemma step_mid:
  assumes w: "walking m0 p0 m p"
    and ev: "state p = Evacuating"
    and idx: "route_idx p + 1 < length (route p0)"
    and pr: "0 \<le> segment_progress p" "segment_progress p < 1"
    and eq: "equal_segments (route p0) l" and l: "0 < l"
    and x: "x = speed p0 * step_time_seconds m0 / l" "0 < x"
    and silent: "hazard_silent m0"
  shows "(real (route_idx p) + segment_progress p + x < real (length (route p0)) - 1 \<longrightarrow>
            walking m0 p0 (fst (PersonAgent_step m p)) (snd (PersonAgent_step m p))
          \<and> state (snd (PersonAgent_step m p)) = Evacuating
          \<and> route_idx (snd (PersonAgent_step m p)) + 1 < length (route p0)
          \<and> 0 \<le> segment_progress (snd (PersonAgent_step m p))
          \<and> segment_progress (snd (PersonAgent_step m p)) < 1
          \<and> real (route_idx (snd (PersonAgent_step m p)))
              + segment_progress (snd (PersonAgent_step m p))
              = real (route_idx p) + segment_progress p + x)
       \<and> (real (length (route p0)) - 1 \<le> real (route_idx p) + segment_progress p + x \<longrightarrow>
            state (snd (PersonAgent_step m p)) = Safe
          \<or> (state (snd (PersonAgent_step m p)) = Evacuating
              \<and> length (route (snd (PersonAgent_step m p)))
                  \<le> route_idx (snd (PersonAgent_step m p)) + 1))"
proof -
  from w have wr: "route p = route p0" and ws: "speed p = speed p0"
    and wt: "step_time_seconds m = step_time_seconds m0"
    and wh: "hazard m = hazard m0" "sim_time m = sim_time m0"
    and hr: "headroom (congestion m) (int (length (route p)) - 1 - int (route_idx p))"
    by (auto simp: walking_def)
  define a where "a = route p ! route_idx p"
  define b where "b = route p ! (route_idx p + 1)"
  have cs: "current_segment p = Some (a, b)"
    using idx by (auto simp: current_segment_def wr a_def b_def)
  have len: "segment_length_m a b = l"
    using eq idx unfolding equal_segments_def a_def b_def wr by blast
  have nz: "segment_length_m a b \<noteq> 0" using len l by simp
  have mult: "get_speed_multiplier (congestion m) a b = 1"
    by (rule headroom_multiplier [OF hr]) (use idx in \<open>simp add: wr\<close>)
  define p1 where "p1 = p\<lparr>segment_progress := segment_progress p + x\<rparr>"
  have p1f: "route p1 = route p" "route_idx p1 = route_idx p"
    "segment_progress p1 = segment_progress p + x" "state p1 = state p" "speed p1 = speed p"
    by (simp_all add: p1_def)
  obtain c2 p2 where ro: "rollover (congestion m) p1 = (c2, p2)" by force
  have rp: "p2 = p1\<lparr>route_idx := route_idx p2, segment_progress := segment_progress p2\<rparr>
       \<and> real (route_idx p2) + segment_progress p2 = real (route_idx p1) + segment_progress p1
       \<and> route_idx p2 + 1 \<le> length (route p1)
       \<and> 0 \<le> segment_progress p2
       \<and> \<not> (1 \<le> segment_progress p2 \<and> route_idx p2 + 1 < length (route p1))
       \<and> headroom c2 (int (length (route p1)) - 1 - int (route_idx p2))"
    by (rule rollover_props [OF _ _ _ ro]) (use hr pr x idx in \<open>simp_all add: p1f wr\<close>)
  then have p2eq: "p2 = p1\<lparr>route_idx := route_idx p2, segment_progress := segment_progress p2\<rparr>"
    and sum: "real (route_idx p2) + segment_progress p2
        = real (route_idx p) + segment_progress p + x"
    and le: "route_idx p2 + 1 \<le> length (route p0)"
    and nn: "0 \<le> segment_progress p2"
    and ex: "\<not> (1 \<le> segment_progress p2 \<and> route_idx p2 + 1 < length (route p0))"
    and hr2: "headroom c2 (int (length (route p0)) - 1 - int (route_idx p2))"
    by (simp_all add: p1f wr)
  have p2f: "route p2 = route p0" "state p2 = Evacuating" "speed p2 = speed p0"
    by (subst p2eq, simp add: p1f wr ev ws)+
  define s where "s = max 0 (min 1 (segment_progress p2))"
  define p3 where "p3 = p2\<lparr>pos := interpolate a b s\<rparr>"
  define m3 where "m3 = m\<lparr>congestion := c2\<rparr>"
  have p3f: "route p3 = route p0" "state p3 = Evacuating" "speed p3 = speed p0"
    "route_idx p3 = route_idx p2" "segment_progress p3 = segment_progress p2"
    by (simp_all add: p3_def p2f)
  have m3f: "hazard m3 = hazard m0" "sim_time m3 = sim_time m0"
    "step_time_seconds m3 = step_time_seconds m0" "congestion m3 = c2"
    by (simp_all add: m3_def wh wt)
  have delta: "speed p * get_speed_multiplier (congestion m) a b * step_time_seconds m
      / segment_length_m a b = x"
    by (simp add: mult len ws wt x(1))
  have adv: "advance_along m p a b (segment_length_m a b)
      = (if int (length (route p3)) - 1 \<le> int (route_idx p3)
            \<and> segment_length_m (pos p3) (last (route p3)) < 1
         then arrive m3 p3 else (m3, p3))"
    unfolding advance_along_def Let_def delta p1_def [symmetric] ro
    by (simp add: s_def p3_def m3_def)
  have st: "PersonAgent_step m p
      = hazard_check (fst (advance_along m p a b (segment_length_m a b)))
                     (snd (advance_along m p a b (segment_length_m a b)))"
    by (rule step_positive_length [OF ev cs nz])
  have sil3: "hazard_silent m3" by (rule hazard_silent_cong [OF silent]) (simp_all add: m3f)
  have sil4: "hazard_silent (fst (arrive m3 p3))"
    by (rule hazard_silent_cong [OF silent]) (simp_all add: arrive_props m3f)
  have w3: "walking m0 p0 m3 p3"
    using hr2 by (simp add: walking_def p3f m3f)
  show ?thesis
  proof (intro conjI impI)
    assume less: "real (route_idx p) + segment_progress p + x < real (length (route p0)) - 1"
    have inside: "route_idx p2 + 1 < length (route p0)"
    proof (rule ccontr)
      assume "\<not> route_idx p2 + 1 < length (route p0)"
      with le have "real (route_idx p2) = real (length (route p0)) - 1" by simp
      with sum less nn show False by simp
    qed
    with ex have lt1: "segment_progress p2 < 1" by simp
    from inside have "\<not> int (length (route p3)) - 1 \<le> int (route_idx p3)"
      by (simp add: p3f)
    then have "advance_along m p a b (segment_length_m a b) = (m3, p3)"
      unfolding adv by simp
    then have res: "PersonAgent_step m p = (m3, p3)"
      unfolding st by (simp add: hazard_check_silent [OF sil3])
    show "walking m0 p0 (fst (PersonAgent_step m p)) (snd (PersonAgent_step m p))"
      unfolding res using w3 by simp
    show "state (snd (PersonAgent_step m p)) = Evacuating" unfolding res by (simp add: p3f)
    show "route_idx (snd (PersonAgent_step m p)) + 1 < length (route p0)"
      unfolding res using inside by (simp add: p3f)
    show "0 \<le> segment_progress (snd (PersonAgent_step m p))"
      unfolding res using nn by (simp add: p3f)
    show "segment_progress (snd (PersonAgent_step m p)) < 1"
      unfolding res using lt1 by (simp add: p3f)
    show "real (route_idx (snd (PersonAgent_step m p)))
        + segment_progress (snd (PersonAgent_step m p))
        = real (route_idx p) + segment_progress p + x"
      unfolding res using sum by (simp add: p3f)
  next
    assume ge: "real (length (route p0)) - 1 \<le> real (route_idx p) + segment_progress p + x"
    have last: "length (route p0) \<le> route_idx p2 + 1"
    proof (rule ccontr)
      assume "\<not> length (route p0) \<le> route_idx p2 + 1"
      then have in2: "route_idx p2 + 1 < length (route p0)" by simp
      with ex have "segment_progress p2 < 1" by simp
      moreover from in2 have "real (route_idx p2) + 1 \<le> real (length (route p0)) - 1"
        by linarith
      ultimately show False using sum ge by linarith
    qed
    show "state (snd (PersonAgent_step m p)) = Safe
        \<or> (state (snd (PersonAgent_step m p)) = Evacuating
            \<and> length (route (snd (PersonAgent_step m p)))
                \<le> route_idx (snd (PersonAgent_step m p)) + 1)"
    proof (cases "int (length (route p3)) - 1 \<le> int (route_idx p3)
            \<and> segment_length_m (pos p3) (last (route p3)) < 1")
      case True
      then have "advance_along m p a b (segment_length_m a b) = arrive m3 p3"
        unfolding adv by simp
      then have "PersonAgent_step m p = arrive m3 p3"
        unfolding st by (simp add: hazard_check_silent [OF sil4])
      then show ?thesis by (simp add: arrive_props)
    next
      case False
      then have "advance_along m p a b (segment_length_m a b) = (m3, p3)"
        unfolding adv by (simp only: if_False)
      then have "PersonAgent_step m p = (m3, p3)"
        unfolding st by (simp add: hazard_check_silent [OF sil3])
      with last show ?thesis by (simp add: p3f)
    qed
  qed
qed

lemma ticks_Suc_end:
  "ticks (Suc n) m p = PersonAgent_step (fst (ticks n m p)) (snd (ticks n m p))"
proof (induction n arbitrary: m p)
  case 0
  show ?case by (simp add: split_beta)
next
  case (Suc n)
  have "ticks (Suc (Suc n)) m p
      = ticks (Suc n) (fst (PersonAgent_step m p)) (snd (PersonAgent_step m p))"
    by (simp add: split_beta)
  also have "\<dots> = PersonAgent_step
      (fst (ticks n (fst (PersonAgent_step m p)) (snd (PersonAgent_step m p))))
      (snd (ticks n (fst (PersonAgent_step m p)) (snd (PersonAgent_step m p))))"
    by (rule Suc.IH)
  also have "\<dots> = PersonAgent_step (fst (ticks (Suc n) m p)) (snd (ticks (Suc n) m p))"
    by (simp add: split_beta)
  finally show ?case .
qed

lemma equal_segments_tail:
  "equal_segments (a # b # ps) l \<Longrightarrow> equal_segments (b # ps) l \<and> segment_length_m a b = l"
proof
  assume e: "equal_segments (a # b # ps) l"
  show "equal_segments (b # ps) l"
    unfolding equal_segments_def
  proof (intro allI impI)
    fix i assume "i + 1 < length (b # ps)"
    then have "Suc i + 1 < length (a # b # ps)" by simp
    with e have "segment_length_m ((a # b # ps) ! Suc i) ((a # b # ps) ! (Suc i + 1)) = l"
      unfolding equal_segments_def by blast
    then show "segment_length_m ((b # ps) ! i) ((b # ps) ! (i + 1)) = l" by simp
  qed
  from e have "segment_length_m ((a # b # ps) ! 0) ((a # b # ps) ! (0 + 1)) = l"
    unfolding equal_segments_def by (metis One_nat_def add.left_neutral length_Cons
        less_Suc_eq_0_disj lessI Suc_less_eq zero_less_Suc)
  then show "segment_length_m a b = l" by simp
qed

lemma route_length_equal:
  "equal_segments r l \<Longrightarrow> r \<noteq> [] \<Longrightarrow> route_length r = (real (length r) - 1) * l"
proof (induction r rule: route_length.induct)
  case (1 a b ps)
  from equal_segments_tail [OF "1.prems"(1)]
  have t: "equal_segments (b # ps) l" and ab: "segment_length_m a b = l" by simp_all
  from "1.IH" [OF t] ab show ?case by (simp add: algebra_simps)
qed simp_all

text \<open>
  Where the progress that the rollover carries over stands for the same distance on every
  segment, the number of ticks is the expected one.  An evacuating agent stands at the
  start of a route of at least two nodes whose segments all have the same positive length;
  speed times tick length is positive; every registered segment has room for as many more
  agents as the route has segments (so the multiplier is 1.0 at every step); and the
  hazard reports nothing.  Let \<open>k\<close> be the ceiling of the total route length over speed
  times tick length.  Then the agent is still evacuating after every number of ticks below
  \<open>k\<close>, and it is safe after \<open>k\<close> or after \<open>k + 1\<close> ticks.
\<close>

lemma safe_after_expected_ticks:
  assumes ev: "state p = Evacuating" and i0: "route_idx p = 0" and p0: "segment_progress p = 0"
    and n2: "2 \<le> length (route p)"
    and eq: "equal_segments (route p) l" and l: "0 < l"
    and d: "0 < speed p * step_time_seconds m"
    and room: "headroom (congestion m) (int (length (route p)) - 1)"
    and silent: "hazard_silent m"
  shows "(\<forall>j < nat \<lceil>route_length (route p) / (speed p * step_time_seconds m)\<rceil>.
            state (snd (ticks j m p)) = Evacuating)
       \<and> (state (snd (ticks (nat \<lceil>route_length (route p) / (speed p * step_time_seconds m)\<rceil>)
                    m p)) = Safe
          \<or> state (snd (ticks (nat \<lceil>route_length (route p) / (speed p * step_time_seconds m)\<rceil>
                    + 1) m p)) = Safe)"
proof -
  define x where "x = speed p * step_time_seconds m / l"
  define y where "y = route_length (route p) / (speed p * step_time_seconds m)"
  define k where "k = nat \<lceil>y\<rceil>"
  define dd where "dd = speed p * step_time_seconds m"
  have dpos: "0 < dd" using d by (simp add: dd_def)
  have xdd: "x = dd / l" and ydd: "y = route_length (route p) / dd"
    by (simp_all add: x_def y_def dd_def)
  have xpos: "0 < x" using dpos l by (simp add: xdd)
  have rl: "route_length (route p) = (real (length (route p)) - 1) * l"
    by (rule route_length_equal [OF eq]) (use n2 in auto)
  have yx: "y * x = real (length (route p)) - 1"
    using dpos l by (simp add: ydd xdd rl)
  have ypos: "0 < y"
    using dpos l n2 by (simp add: ydd rl)
  have inv: "real j * x < real (length (route p)) - 1 \<Longrightarrow>
      walking m p (fst (ticks j m p)) (snd (ticks j m p))
      \<and> state (snd (ticks j m p)) = Evacuating
      \<and> route_idx (snd (ticks j m p)) + 1 < length (route p)
      \<and> 0 \<le> segment_progress (snd (ticks j m p))
      \<and> segment_progress (snd (ticks j m p)) < 1
      \<and> real (route_idx (snd (ticks j m p))) + segment_progress (snd (ticks j m p))
          = real j * x" for j
  proof (induction j)
    case 0
    show ?case using ev i0 p0 n2 room by (simp add: walking_def)
  next
    case (Suc j)
    have "real j * x \<le> real (Suc j) * x" using xpos by (simp add: algebra_simps)
    with Suc.prems have "real j * x < real (length (route p)) - 1" by simp
    from Suc.IH [OF this]
    have w: "walking m p (fst (ticks j m p)) (snd (ticks j m p))"
      and s: "state (snd (ticks j m p)) = Evacuating"
      and i: "route_idx (snd (ticks j m p)) + 1 < length (route p)"
      and pr: "0 \<le> segment_progress (snd (ticks j m p))"
         "segment_progress (snd (ticks j m p)) < 1"
      and sum: "real (route_idx (snd (ticks j m p))) + segment_progress (snd (ticks j m p))
          = real j * x"
      by simp_all
    have "real (route_idx (snd (ticks j m p))) + segment_progress (snd (ticks j m p)) + x
        = real (Suc j) * x" using sum by (simp add: algebra_simps)
    with Suc.prems
    have lt: "real (route_idx (snd (ticks j m p))) + segment_progress (snd (ticks j m p)) + x
        < real (length (route p)) - 1" by simp
    from step_mid [OF w s i pr eq l x_def xpos silent, THEN conjunct1, rule_format, OF lt] sum
    show ?case unfolding ticks_Suc_end by (simp add: algebra_simps)
  qed
  have before: "state (snd (ticks j m p)) = Evacuating" if "j < k" for j
  proof -
    from that have "int j < \<lceil>y\<rceil>" by (simp add: k_def)
    then have "real j < y" by (simp add: less_ceiling_iff)
    then have "real j * x < y * x" using xpos by simp
    then show ?thesis using inv [of j] yx by simp
  qed
  have kpos: "0 < k" using ypos by (simp add: k_def)
  have after: "state (snd (ticks k m p)) = Safe \<or> state (snd (ticks (k + 1) m p)) = Safe"
  proof -
    obtain j where j: "k = Suc j" using kpos by (cases k) simp_all
    then have "j < k" by simp
    then have "int j < \<lceil>y\<rceil>" by (simp add: k_def)
    then have "real j < y" by (simp add: less_ceiling_iff)
    then have "real j * x < y * x" using xpos by simp
    then have "real j * x < real (length (route p)) - 1" using yx by simp
    from inv [OF this]
    have w: "walking m p (fst (ticks j m p)) (snd (ticks j m p))"
      and s: "state (snd (ticks j m p)) = Evacuating"
      and i: "route_idx (snd (ticks j m p)) + 1 < length (route p)"
      and pr: "0 \<le> segment_progress (snd (ticks j m p))"
         "segment_progress (snd (ticks j m p)) < 1"
      and sum: "real (route_idx (snd (ticks j m p))) + segment_progress (snd (ticks j m p))
          = real j * x"
      by simp_all
    have "y \<le> real k" unfolding k_def using ypos by (simp add: le_of_int_ceiling)
    then have "y * x \<le> real k * x" using xpos by simp
    then have "real (length (route p)) - 1 \<le> real (Suc j) * x" using yx j by simp
    also have "\<dots> = real (route_idx (snd (ticks j m p)))
        + segment_progress (snd (ticks j m p)) + x"
      using sum by (simp add: algebra_simps)
    finally have ge: "real (length (route p)) - 1
        \<le> real (route_idx (snd (ticks j m p))) + segment_progress (snd (ticks j m p)) + x" .
    from step_mid [OF w s i pr eq l x_def xpos silent, THEN conjunct2, rule_format, OF ge]
    have "state (snd (ticks k m p)) = Safe
        \<or> (state (snd (ticks k m p)) = Evacuating
            \<and> length (route (snd (ticks k m p))) \<le> route_idx (snd (ticks k m p)) + 1)"
      unfolding j ticks_Suc_end .
    then show ?thesis
    proof
      assume "state (snd (ticks k m p)) = Safe"
      then show ?thesis ..
    next
      assume "state (snd (ticks k m p)) = Evacuating
            \<and> length (route (snd (ticks k m p))) \<le> route_idx (snd (ticks k m p)) + 1"
      then have "state (snd (PersonAgent_step (fst (ticks k m p)) (snd (ticks k m p)))) = Safe"
        by (intro step_at_end) simp_all
      then have "state (snd (ticks (k + 1) m p)) = Safe"
        using ticks_Suc_end [of k m p] by simp
      then show ?thesis ..
    qed
  qed
  show ?thesis
    using before after unfolding k_def y_def by blast
qed

section \<open>The tick count at concrete routes\<close>

lemma demo_headroom: "headroom (congestion demo_model) 2"
  by (simp add: headroom_def demo_model_def demo_congestion_data)

lemma demo_silent: "hazard_silent demo_model"
  by (simp add: hazard_silent_def demo_model_def is_inundated_def get_time_to_inundation_def
      hazard_blank_def)

lemma ABC_equal: "equal_segments [eq_A, eq_B, eq_C] len_AB"
  unfolding equal_segments_def
proof (intro allI impI)
  fix i :: nat
  assume "i + 1 < length [eq_A, eq_B, eq_C]"
  then have "i = 0 \<or> i = 1" by auto
  then show "segment_length_m ([eq_A, eq_B, eq_C] ! i) ([eq_A, eq_B, eq_C] ! (i + 1)) = len_AB"
    by (auto simp: len_AB_def len_BC)
qed

lemma ABC_length: "route_length [eq_A, eq_B, eq_C] = 2 * len_AB"
  by (simp add: len_BC) (simp add: len_AB_def)

lemma ABC_ticks: "nat \<lceil>route_length [eq_A, eq_B, eq_C] / (7 / 5 * 1)\<rceil> = 2"
proof -
  have "1 < 2 * len_AB / (7 / 5)" "2 * len_AB / (7 / 5) \<le> 2"
    using len_AB_bounds by simp_all
  then have "\<lceil>2 * len_AB / (7 / 5 * 1)\<rceil> = 2" by (simp add: ceiling_eq_iff)
  then show ?thesis by (simp only: ABC_length nat_numeral)
qed

lemma ABC_safe_after_expected_ticks:
  "state (walker [eq_A, eq_B, eq_C]) = Evacuating
   \<and> route_idx (walker [eq_A, eq_B, eq_C]) = 0
   \<and> segment_progress (walker [eq_A, eq_B, eq_C]) = 0
   \<and> equal_segments (route (walker [eq_A, eq_B, eq_C])) len_AB \<and> 0 < len_AB
   \<and> headroom (congestion demo_model) (int (length (route (walker [eq_A, eq_B, eq_C]))) - 1)
   \<and> hazard_silent demo_model
   \<and> nat \<lceil>route_length (route (walker [eq_A, eq_B, eq_C]))
             / (speed (walker [eq_A, eq_B, eq_C]) * step_time_seconds demo_model)\<rceil> = 2
   \<and> state (snd (ticks 1 demo_model (walker [eq_A, eq_B, eq_C]))) = Evacuating
   \<and> (state (snd (ticks 2 demo_model (walker [eq_A, eq_B, eq_C]))) = Safe
       \<or> state (snd (ticks 3 demo_model (walker [eq_A, eq_B, eq_C]))) = Safe)"
proof -
  define w where "w = walker [eq_A, eq_B, eq_C]"
  have wf: "state w = Evacuating" "route_idx w = 0" "segment_progress w = 0"
    "route w = [eq_A, eq_B, eq_C]" "speed w = 7 / 5"
    by (simp_all add: w_def walker_fields)
  have lpos: "0 < len_AB" using len_AB_bounds(1) by simp
  have eq: "equal_segments (route w) len_AB" by (simp add: wf ABC_equal)
  have room: "headroom (congestion demo_model) (int (length (route w)) - 1)"
    using demo_headroom by (simp add: wf)
  have d: "0 < speed w * step_time_seconds demo_model" by (simp add: wf demo_fields)
  have k: "nat \<lceil>route_length (route w) / (speed w * step_time_seconds demo_model)\<rceil> = 2"
    using ABC_ticks by (simp add: wf demo_fields)
  have n2: "2 \<le> length (route w)" by (simp add: wf)
  note th = safe_after_expected_ticks [OF wf(1) wf(2) wf(3) n2 eq lpos d room demo_silent]
  from th have "state (snd (ticks 1 demo_model w)) = Evacuating"
    unfolding k by (metis one_less_numeral_iff semiring_norm(76))
  moreover from th have "state (snd (ticks 2 demo_model w)) = Safe
      \<or> state (snd (ticks 3 demo_model w)) = Safe"
    unfolding k by (simp add: numeral_3_eq_3 numeral_2_eq_2)
  ultimately show ?thesis
    unfolding w_def [symmetric] using wf(1-3) eq lpos room demo_silent k by blast
qed

lemma len_AS: "segment_length_m eq_A eq_S = 6371000 * radians (3 / 1000000)"
  unfolding eq_A_def eq_S_def
  using segment_length_equator [where ?x1.0 = 0 and ?x2.0 = "3 / 1000000"] by simp

lemma len_AS_bounds: "0 < segment_length_m eq_A eq_S" "segment_length_m eq_A eq_S < 7 / 15"
  using pi_ge_3 pi_less_4 by (simp_all add: len_AS radians_def)

lemma len_S_far: "segment_length_m eq_S eq_far = 6371000 * radians (997 / 1000000)"
  unfolding eq_S_def eq_far_def
  using segment_length_equator [where ?x1.0 = "3 / 1000000" and ?x2.0 = "1 / 1000"] by simp

lemma len_S_far_bound: "105 < segment_length_m eq_S eq_far"
  using pi_ge_3 by (simp add: len_S_far radians_def)

lemma unregistered_keys:
  "segment_data demo_congestion (seg_key eq_A eq_S) = None"
  "segment_data demo_congestion (seg_key eq_S eq_far) = None"
  by (simp_all add: demo_congestion_data seg_key_def tuple_lt_def eq_A_def eq_B_def eq_C_def
      eq_S_def eq_far_def)

lemma unregistered_noop:
  "segment_data c (seg_key a b) = None \<Longrightarrow> leave_segment c a b = c"
  "segment_data c (seg_key a b) = None \<Longrightarrow> enter_segment c a b = c"
  "segment_data c (seg_key a b) = None \<Longrightarrow> get_speed_multiplier c a b = 1"
  by (simp_all add: leave_segment_def enter_segment_def get_speed_multiplier_def)

text \<open>
  \<^bold>\<open>Claim C6\<close> fails on the code.  The rollover loop, the same that leaves the position of
  claim C5 behind, carries what is left of the progress over to the next segment as a
  fraction of a segment, not as a distance, although \<^verbatim>\<open>dist_this_step\<close> is the distance
  covered in the step and the speed is in metres per second.  On the route
  \<open>eq_A, eq_S, eq_far\<close> (a segment of about 0.33 m followed by one of more than 105 m,
  both unregistered, so the multiplier is 1.0) the first tick of 1.4 m is more than three
  lengths of the first segment and rolls the cursor over both segments.  The second tick
  finds the cursor at the last node and marks the agent safe, while its position is still
  \<open>eq_S\<close>, more than 105 m away from the last node, and while the total length over the
  distance per tick is more than 75.
\<close>

theorem short_first_segment_ends_early:
  "state (walker [eq_A, eq_S, eq_far]) = Evacuating
   \<and> get_speed_multiplier (congestion demo_model) eq_A eq_S = 1
   \<and> get_speed_multiplier (congestion demo_model) eq_S eq_far = 1
   \<and> state (snd (ticks 1 demo_model (walker [eq_A, eq_S, eq_far]))) = Evacuating
   \<and> state (snd (ticks 2 demo_model (walker [eq_A, eq_S, eq_far]))) = Safe
   \<and> pos (snd (ticks 2 demo_model (walker [eq_A, eq_S, eq_far]))) = eq_S
   \<and> 105 < segment_length_m (pos (snd (ticks 2 demo_model (walker [eq_A, eq_S, eq_far]))))
              (last (route (walker [eq_A, eq_S, eq_far])))
   \<and> 75 < route_length (route (walker [eq_A, eq_S, eq_far]))
            / (speed (walker [eq_A, eq_S, eq_far]) * step_time_seconds demo_model)
   \<and> \<not> \<bar>2 - \<lceil>route_length (route (walker [eq_A, eq_S, eq_far]))
                / (speed (walker [eq_A, eq_S, eq_far]) * step_time_seconds demo_model)\<rceil>\<bar> \<le> 1"
proof -
  define w where "w = walker [eq_A, eq_S, eq_far]"
  define L where "L = segment_length_m eq_A eq_S"
  define x where "x = 7 / 5 / L"
  have Lb: "0 < L" "L < 7 / 15" using len_AS_bounds by (simp_all add: L_def)
  have x3: "3 \<le> x" using Lb by (simp add: x_def field_simps)
  have wf: "state w = Evacuating" "route w = [eq_A, eq_S, eq_far]" "route_idx w = 0"
    "segment_progress w = 0" "speed w = 7 / 5"
    by (simp_all add: w_def walker_fields)
  have cs: "current_segment w = Some (eq_A, eq_S)"
    by (simp add: current_segment_def wf)
  have nz: "segment_length_m eq_A eq_S \<noteq> 0" using Lb by (simp add: L_def)
  have cong: "congestion demo_model = demo_congestion" by (simp add: demo_model_def)
  have mult: "get_speed_multiplier (congestion demo_model) eq_A eq_S = 1"
    "get_speed_multiplier (congestion demo_model) eq_S eq_far = 1"
    by (simp_all add: cong unregistered_noop unregistered_keys)
  define p1 where "p1 = w\<lparr>segment_progress := x\<rparr>"
  define p2 where "p2 = p1\<lparr>route_idx := route_idx p1 + 1, segment_progress := segment_progress p1 - 1\<rparr>"
  define p3 where "p3 = p2\<lparr>route_idx := route_idx p2 + 1, segment_progress := segment_progress p2 - 1\<rparr>"
  have p1f: "segment_progress p1 = x" "route_idx p1 = 0" "route p1 = [eq_A, eq_S, eq_far]"
    by (simp_all add: p1_def wf)
  have p2f: "segment_progress p2 = x - 1" "route_idx p2 = 1" "route p2 = [eq_A, eq_S, eq_far]"
    by (simp_all add: p2_def p1f)
  have p3f: "segment_progress p3 = x - 2" "route_idx p3 = 2" "route p3 = [eq_A, eq_S, eq_far]"
    "state p3 = Evacuating"
    by (simp_all add: p3_def p2_def p1_def wf)
  have lc1: "leave_current demo_congestion p1 = demo_congestion"
    by (simp add: leave_current_def current_segment_def p1f unregistered_noop unregistered_keys)
  have ec2: "enter_current demo_congestion p2 = demo_congestion"
    by (simp add: enter_current_def current_segment_def p2f unregistered_noop unregistered_keys)
  have lc2: "leave_current demo_congestion p2 = demo_congestion"
    by (simp add: leave_current_def current_segment_def p2f unregistered_noop unregistered_keys)
  have ec3: "enter_current demo_congestion p3 = demo_congestion"
    by (simp add: enter_current_def current_segment_def p3f)
  have "rollover demo_congestion p1
      = rollover (enter_current (leave_current demo_congestion p1) p2) p2"
    unfolding p2_def by (rule rollover_go) (use x3 in \<open>simp_all add: p1f\<close>)
  then have r1: "rollover demo_congestion p1 = rollover demo_congestion p2"
    by (simp only: lc1 ec2)
  have "rollover demo_congestion p2
      = rollover (enter_current (leave_current demo_congestion p2) p3) p3"
    unfolding p3_def by (rule rollover_go) (use x3 in \<open>simp_all add: p2f\<close>)
  then have r2: "rollover demo_congestion p2 = rollover demo_congestion p3"
    by (simp only: lc2 ec3)
  have r3: "rollover demo_congestion p3 = (demo_congestion, p3)"
    by (rule rollover_stop) (simp add: p3f)
  define p4 where "p4 = p3\<lparr>pos := eq_S\<rparr>"
  have p4f: "route_idx p4 = 2" "route p4 = [eq_A, eq_S, eq_far]" "state p4 = Evacuating"
    "pos p4 = eq_S"
    by (simp_all add: p4_def p3f)
  have far: "\<not> segment_length_m eq_S eq_far < 1" using len_S_far_bound by simp
  have adv: "advance_along demo_model w eq_A eq_S (segment_length_m eq_A eq_S) = (demo_model, p4)"
  proof -
    have a: "w\<lparr>segment_progress := segment_progress w
          + speed w * get_speed_multiplier demo_congestion eq_A eq_S
            * step_time_seconds demo_model / segment_length_m eq_A eq_S\<rparr> = p1"
      using mult by (simp add: cong p1_def wf demo_fields x_def L_def)
    have b: "max 0 (min 1 (x - 2)) = 1" using x3 by simp
    have c: "interpolate eq_A eq_S 1 = eq_S" by (simp add: interpolate_def)
    have d: "demo_model\<lparr>congestion := demo_congestion\<rparr> = demo_model"
      by (simp add: demo_model_def)
    show ?thesis
      unfolding advance_along_def Let_def cong a r1 r2 r3
      using far by (simp add: p3f b c d p4_def [symmetric] p4f)
  qed
  have t1: "PersonAgent_step demo_model w = (demo_model, p4)"
    unfolding step_positive_length [OF wf(1) cs nz] adv
    by (simp add: hazard_check_blank demo_fields)
  have t2: "state (snd (PersonAgent_step demo_model p4)) = Safe"
    by (rule step_at_end) (simp_all add: p4f)
  have s1: "state (snd (ticks 1 demo_model w)) = Evacuating"
    by (simp add: t1 p4f)
  have s2: "state (snd (ticks 2 demo_model w)) = Safe"
    using t2 by (simp add: numeral_2_eq_2 t1 split_beta)
  have "PersonAgent_step demo_model p4 = arrive demo_model p4"
    by (simp add: PersonAgent_step_def p4f)
  then have q2: "pos (snd (ticks 2 demo_model w)) = eq_S"
    by (simp add: numeral_2_eq_2 t1 arrive_def Let_def p4f)
  have away: "105 < segment_length_m (pos (snd (ticks 2 demo_model w))) (last (route w))"
    unfolding q2 using len_S_far_bound by (simp add: wf)
  have rl: "route_length (route w) = segment_length_m eq_A eq_S + segment_length_m eq_S eq_far"
    by (simp add: wf)
  have big: "75 < route_length (route w) / (speed w * step_time_seconds demo_model)"
    using len_S_far_bound Lb(1) by (simp add: rl wf demo_fields L_def)
  then have "75 < \<lceil>route_length (route w) / (speed w * step_time_seconds demo_model)\<rceil>"
    by (simp add: less_ceiling_iff)
  then have off: "\<not> \<bar>2 - \<lceil>route_length (route w)
      / (speed w * step_time_seconds demo_model)\<rceil>\<bar> \<le> 1" by simp
  show ?thesis
    unfolding w_def [symmetric] using wf(1) mult s1 s2 q2 away big off by blast
qed

section \<open>Further facts about the agent step\<close>

text \<open>The shelter counters change only through \<^verbatim>\<open>_arrive\<close>, so a step of an agent keeps
  what \<^verbatim>\<open>add_occupant\<close> maintains of every shelter.\<close>

lemma arrive_notifies:
  "evac_agents (fst (arrive m p)) = shelter_apply (evac_agents m) (Arrival (evac_center_id p))"
  by (simp add: arrive_def Let_def)

lemma hazard_check_evac: "evac_agents (fst (hazard_check m p)) = evac_agents m"
  by (simp add: hazard_check_def become_overtaken_def split: option.splits)

lemma hazard_check_pos:
  "pos (snd (hazard_check m p)) = pos p"
  "route_idx (snd (hazard_check m p)) = route_idx p"
  "segment_progress (snd (hazard_check m p)) = segment_progress p"
  "route (snd (hazard_check m p)) = route p"
  by (simp_all add: hazard_check_def become_overtaken_def split: option.splits)

lemma step_keeps_shelters_counted:
  assumes "shelters_counted (evac_agents m)"
  shows "shelters_counted (evac_agents (fst (PersonAgent_step m p)))"
proof -
  have a: "shelters_counted (evac_agents (fst (arrive m' p')))"
    if "evac_agents m' = evac_agents m" for m' p'
    unfolding arrive_notifies that by (rule shelter_apply_counted [OF assms])
  have adv: "shelters_counted (evac_agents (fst (advance_along m p s e l)))" for s e l
    using assms by (auto simp: advance_along_def Let_def split_beta intro!: a)
  show ?thesis
    using assms a [of m p] adv
    by (auto simp: PersonAgent_step_def zero_length_hop_def Let_def split_beta hazard_check_evac
        split: option.splits)
qed

text \<open>What holds of the position: a step that stays on its segment leaves the agent at
  the interpolation between the endpoints of that segment at the new progress.\<close>

lemma position_without_rollover:
  assumes ev: "state p = Evacuating" and cs: "current_segment p = Some (a, b)"
    and nz: "segment_length_m a b \<noteq> 0"
    and lo: "0 \<le> segment_progress p
              + speed p * get_speed_multiplier (congestion m) a b * step_time_seconds m
                / segment_length_m a b"
    and hi: "segment_progress p
              + speed p * get_speed_multiplier (congestion m) a b * step_time_seconds m
                / segment_length_m a b < 1"
  shows "route_idx (snd (PersonAgent_step m p)) = route_idx p
       \<and> pos (snd (PersonAgent_step m p))
           = interpolate a b (segment_progress (snd (PersonAgent_step m p)))"
proof -
  define q where "q = segment_progress p
      + speed p * get_speed_multiplier (congestion m) a b * step_time_seconds m
        / segment_length_m a b"
  define p1 where "p1 = p\<lparr>segment_progress := q\<rparr>"
  have inside: "\<not> (route p = [] \<or> int (length (route p)) - 1 \<le> int (route_idx p))"
  proof
    assume "route p = [] \<or> int (length (route p)) - 1 \<le> int (route_idx p)"
    then have "current_segment p = None" by (simp only: current_segment_def if_True)
    with cs show False by simp
  qed
  have ro: "rollover (congestion m) p1 = (congestion m, p1)"
    by (rule rollover_stop) (use hi in \<open>simp add: p1_def q_def\<close>)
  have adv: "advance_along m p a b (segment_length_m a b)
      = (m\<lparr>congestion := congestion m\<rparr>, p1\<lparr>pos := interpolate a b q\<rparr>)"
    unfolding advance_along_def Let_def q_def [symmetric] p1_def [symmetric] ro
    using inside lo hi by (simp add: p1_def q_def)
  show ?thesis
    unfolding step_positive_length [OF ev cs nz] adv
    by (simp add: hazard_check_pos p1_def)
qed

end
